theory Spec2Isabelle
  imports Complex_Main
begin

section \<open>The fuzzy medicine matcher (src/utils/fuzzyMedicineMatcher.js)\<close>

text \<open>
  A shallow embedding of the resolver of \<^verbatim>\<open>fuzzyMedicineMatcher.js\<close>.
  Modelling decisions that hold for the whole development:
  \<^item> A JavaScript string is a \<^typ>\<open>string\<close>; a \<^typ>\<open>char\<close> stands for a UTF-16 code
    unit below 256 (ASCII and Latin-1), so \<open>length\<close> is \<^verbatim>\<open>.length\<close>.
  \<^item> A JavaScript number that carries a score is a \<^typ>\<open>rat\<close>: doubles are idealised
    as exact rationals.
  \<^item> An argument that may be \<^verbatim>\<open>null\<close> or \<^verbatim>\<open>undefined\<close> is an \<open>option\<close>
    (\<open>None\<close> for both); the empty string is the only falsy string.
\<close>

subsection \<open>JavaScript strings\<close>

definition toLowerCase_char :: "char \<Rightarrow> char" where
  "toLowerCase_char c =
     (let n = (of_char c :: nat)
      in if (65 \<le> n \<and> n \<le> 90) \<or> (192 \<le> n \<and> n \<le> 222 \<and> n \<noteq> 215)
         then char_of (n + 32) else c)"

definition toLowerCase :: "string \<Rightarrow> string" where
  "toLowerCase s = map toLowerCase_char s"

text \<open>White space of \<^verbatim>\<open>String.prototype.trim\<close> and of the regular expression class
  \<^verbatim>\<open>\s\<close>, below 256: TAB, LF, VT, FF, CR, SP and NBSP.\<close>

definition is_space :: "char \<Rightarrow> bool" where
  "is_space c = (let n = (of_char c :: nat) in (9 \<le> n \<and> n \<le> 13) \<or> n = 32 \<or> n = 160)"

definition trimEnd :: "string \<Rightarrow> string" where
  "trimEnd s = rev (dropWhile is_space (rev s))"

definition trim :: "string \<Rightarrow> string" where
  "trim s = trimEnd (dropWhile is_space s)"

primrec startsWith :: "string \<Rightarrow> string \<Rightarrow> bool" where
  "startsWith s [] = True"
| "startsWith s (p # ps) = (case s of [] \<Rightarrow> False | c # cs \<Rightarrow> c = p \<and> startsWith cs ps)"

text \<open>\<^verbatim>\<open>s.includes(t)\<close>: \<open>t\<close> occurs in \<open>s\<close> as a contiguous run.\<close>

primrec includes_str :: "string \<Rightarrow> string \<Rightarrow> bool" where
  "includes_str [] t = (t = [])"
| "includes_str (c # cs) t = (startsWith (c # cs) t \<or> includes_str cs t)"

definition truthy_str :: "string option \<Rightarrow> bool" where
  "truthy_str v = (case v of None \<Rightarrow> False | Some s \<Rightarrow> s \<noteq> [])"

subsection \<open>levenshteinDistance\<close>

text \<open>
  The source fills a \<open>(len1 + 1) \<times> (len2 + 1)\<close> matrix row by row; row 0 is
  \<open>[0, 1, .., len2]\<close>, column 0 of row \<open>i\<close> is \<open>i\<close>, and every other cell is the
  minimum of the cell above plus one, the cell to the left plus one and the diagonal
  cell plus the substitution cost. \<open>fill_row\<close> is the inner loop over \<open>j\<close>: it takes
  the row above from column \<open>j - 1\<close> on and the value just written to the left.
\<close>

definition subst_cost :: "char \<Rightarrow> char \<Rightarrow> nat" where
  "subst_cost a b = (if toLowerCase_char a = toLowerCase_char b then 0 else 1)"

fun fill_row :: "char \<Rightarrow> string \<Rightarrow> nat list \<Rightarrow> nat \<Rightarrow> nat list" where
  "fill_row a (b # bs) (diag # up # ups) left =
     (let v = min (up + 1) (min (left + 1) (diag + subst_cost a b))
      in v # fill_row a bs (up # ups) v)"
| "fill_row a bs ups left = []"

definition next_row :: "string \<Rightarrow> nat list \<Rightarrow> char \<Rightarrow> nat list" where
  "next_row str2 ups a = (let i = hd ups + 1 in i # fill_row a str2 ups i)"

definition levenshteinDistance :: "string \<Rightarrow> string \<Rightarrow> nat" where
  "levenshteinDistance str1 str2 = last (foldl (next_row str2) [0 ..< length str2 + 1] str1)"

text \<open>The row of the matrix that the outer loop has reached after the characters \<open>s\<close>
  of the first string.\<close>

definition lev_row :: "string \<Rightarrow> string \<Rightarrow> nat list" where
  "lev_row s t = foldl (next_row t) [0 ..< length t + 1] s"

subsection \<open>calculateSimilarity\<close>

definition calculateSimilarity :: "string option \<Rightarrow> string option \<Rightarrow> rat" where
  "calculateSimilarity str1 str2 =
     (if \<not> truthy_str str1 \<or> \<not> truthy_str str2 then 0
      else
        let s1 = trim (toLowerCase (the str1));
            s2 = trim (toLowerCase (the str2))
        in if s1 = s2 then 1
           else if includes_str s1 s2 \<or> includes_str s2 s1 then
             (let longer = (if length s1 > length s2 then s1 else s2);
                  shorter = (if length s1 > length s2 then s2 else s1)
              in (4 / 5) * (of_nat (length shorter) / of_nat (length longer)))
           else
             (let maxLength = max (length s1) (length s2)
              in if maxLength = 0 then 1
                 else max 0 (1 - of_nat (levenshteinDistance s1 s2) / of_nat maxLength)))"

subsection \<open>extractStrengthFromName\<close>

text \<open>
  The pattern \<^verbatim>\<open>/(\d+(?:\.\d+)?)\s*(mg|gm|ml|mcg|g|l|iu|%)/gi\<close>. A match that starts at
  the head of a string is found without backtracking: the digits, the fraction and the
  white space are taken greedily, and giving any of them back leaves a digit, a dot or
  a space where a unit must start, which no unit does. The alternatives of the unit are
  tried in the order of the pattern; under the flag \<^verbatim>\<open>i\<close> a code unit below 256
  matches a letter of the pattern exactly when its lower case is that letter.
\<close>

definition is_digit :: "char \<Rightarrow> bool" where
  "is_digit c = (let n = (of_char c :: nat) in 48 \<le> n \<and> n \<le> 57)"

definition DOSE_UNITS :: "string list" where
  "DOSE_UNITS = [''mg'', ''gm'', ''ml'', ''mcg'', ''g'', ''l'', ''iu'', ''%'']"

definition match_number :: "string \<Rightarrow> string option" where
  "match_number s =
     (let ds = takeWhile is_digit s; r = dropWhile is_digit s
      in if ds = [] then None
         else (case r of
                 [] \<Rightarrow> Some ds
               | c # r' \<Rightarrow>
                   if c = CHR ''.'' \<and> takeWhile is_digit r' \<noteq> []
                   then Some (ds @ c # takeWhile is_digit r') else Some ds))"

definition match_unit :: "string \<Rightarrow> string option" where
  "match_unit s =
     map_option (\<lambda>u. take (length u) s)
       (find (\<lambda>u. startsWith (toLowerCase s) u) DOSE_UNITS)"

text \<open>The text matched by the whole pattern at the head of \<open>s\<close>, if any.\<close>

definition dose_at :: "string \<Rightarrow> string option" where
  "dose_at s =
     (case match_number s of
        None \<Rightarrow> None
      | Some n \<Rightarrow>
          let r = drop (length n) s; ws = takeWhile is_space r
          in (case match_unit (dropWhile is_space r) of
                None \<Rightarrow> None
              | Some u \<Rightarrow> Some (n @ ws @ u)))"

text \<open>
  \<^verbatim>\<open>str.match(strengthPattern)\<close> and \<^verbatim>\<open>str.replace(strengthPattern, '')\<close> under the
  flag \<^verbatim>\<open>g\<close>: the string is scanned from the left, and after a match the scan
  resumes behind it. The first argument counts the code units of the last match that
  are still to be skipped.
\<close>

fun dose_matches :: "nat \<Rightarrow> string \<Rightarrow> string list" where
  "dose_matches k [] = []"
| "dose_matches (Suc k) (c # cs) = dose_matches k cs"
| "dose_matches 0 (c # cs) =
     (case dose_at (c # cs) of
        Some tok \<Rightarrow> tok # dose_matches (length tok - 1) cs
      | None \<Rightarrow> dose_matches 0 cs)"

fun dose_removed :: "nat \<Rightarrow> string \<Rightarrow> string" where
  "dose_removed k [] = []"
| "dose_removed (Suc k) (c # cs) = dose_removed k cs"
| "dose_removed 0 (c # cs) =
     (case dose_at (c # cs) of
        Some tok \<Rightarrow> dose_removed (length tok - 1) cs
      | None \<Rightarrow> c # dose_removed 0 cs)"

text \<open>The two patterns without the flag \<^verbatim>\<open>g\<close> that take the full dose apart: the
  first number and the first unit of a string.\<close>

primrec first_number :: "string \<Rightarrow> string option" where
  "first_number [] = None"
| "first_number (c # cs) =
     (case match_number (c # cs) of Some n \<Rightarrow> Some n | None \<Rightarrow> first_number cs)"

primrec first_unit :: "string \<Rightarrow> string option" where
  "first_unit [] = None"
| "first_unit (c # cs) =
     (case match_unit (c # cs) of Some u \<Rightarrow> Some u | None \<Rightarrow> first_unit cs)"

record extracted_dose =
  name :: string
  strength :: "string option"
  unit :: "string option"
  fullDose :: "string option"

definition extractStrengthFromName :: "string option \<Rightarrow> extracted_dose" where
  "extractStrengthFromName medicineName =
     (if \<not> truthy_str medicineName
      then \<lparr>name = [], strength = None, unit = None, fullDose = None\<rparr>
      else
        let s = the medicineName
        in (case dose_matches 0 s of
              m # ms \<Rightarrow>
                let full = trim (toLowerCase m)
                in \<lparr>name = trim (dose_removed 0 s),
                    strength = first_number full,
                    unit = map_option toLowerCase (first_unit full),
                    fullDose = Some full\<rparr>
            | [] \<Rightarrow> \<lparr>name = trim s, strength = None, unit = None, fullDose = None\<rparr>))"

subsection \<open>removeSuffixes\<close>

definition MEDICINE_SUFFIXES :: "string list" where
  "MEDICINE_SUFFIXES =
     [''tablet'', ''tablets'', ''tab'', ''tabs'',
      ''capsule'', ''capsules'', ''cap'', ''caps'',
      ''syrup'', ''suspension'', ''solution'',
      ''injection'', ''inj'',
      ''cream'', ''ointment'', ''gel'',
      ''drops'', ''drop'',
      ''powder'', ''granules'',
      ''mr'', ''sr'', ''xr'', ''er'', ''cr'', ''la'', ''xl'', ''ds'']"

text \<open>
  \<^verbatim>\<open>cleaned.replace(new RegExp(`\\s+${suffix}\\s*$`, 'gi'), '')\<close>: the pattern can only
  match at the end of the string, where the suffix stands ahead of the trailing white
  space and behind at least one white space; the leftmost match starts at the first
  code unit of that run of white space.
\<close>

definition replace_suffix :: "string \<Rightarrow> string \<Rightarrow> string" where
  "replace_suffix cleaned suffix =
     (let body = trimEnd cleaned;
          n = length body - length suffix;
          front = take n body
      in if length suffix \<le> length body \<and> toLowerCase (drop n body) = suffix
            \<and> front \<noteq> [] \<and> is_space (last front)
         then trimEnd front else cleaned)"

definition removeSuffixes :: "string option \<Rightarrow> string" where
  "removeSuffixes nm =
     (if \<not> truthy_str nm then []
      else trim (foldl replace_suffix (trim (toLowerCase (the nm))) MEDICINE_SUFFIXES))"

subsection \<open>generateMedicineNameVariations\<close>

text \<open>A JavaScript \<^verbatim>\<open>Set\<close> of strings is the list of its members in insertion order.\<close>

definition set_add :: "string list \<Rightarrow> string \<Rightarrow> string list" where
  "set_add vs v = (if v \<in> set vs then vs else vs @ [v])"

definition replace_char :: "char \<Rightarrow> char \<Rightarrow> string \<Rightarrow> string" where
  "replace_char a b s = map (\<lambda>c. if c = a then b else c) s"

definition ocr_variations :: "string list \<Rightarrow> string \<Rightarrow> string list" where
  "ocr_variations variations base =
     (let lowerBase = toLowerCase base;
          v1 = (if CHR ''o'' \<in> set lowerBase \<or> CHR ''0'' \<in> set lowerBase
                then set_add (set_add variations (replace_char CHR ''o'' CHR ''0'' lowerBase))
                       (replace_char CHR ''0'' CHR ''o'' lowerBase)
                else variations);
          v2 = (if CHR ''i'' \<in> set lowerBase \<or> CHR ''1'' \<in> set lowerBase
                    \<or> CHR ''l'' \<in> set lowerBase
                then set_add (set_add (set_add v1 (replace_char CHR ''i'' CHR ''1'' lowerBase))
                       (replace_char CHR ''1'' CHR ''i'' lowerBase))
                       (replace_char CHR ''l'' CHR ''i'' lowerBase)
                else v1)
      in if CHR ''s'' \<in> set lowerBase \<or> CHR ''5'' \<in> set lowerBase
         then set_add (set_add v2 (replace_char CHR ''s'' CHR ''5'' lowerBase))
                (replace_char CHR ''5'' CHR ''s'' lowerBase)
         else v2)"

definition base_variations :: "string \<Rightarrow> string list" where
  "base_variations cleaned =
     (let v0 = set_add (set_add [] cleaned) (toLowerCase cleaned);
          extracted = extractStrengthFromName (Some cleaned);
          v1 = (if name extracted \<noteq> [] \<and> name extracted \<noteq> cleaned
                then set_add (set_add v0 (name extracted)) (toLowerCase (name extracted))
                else v0);
          withoutSuffix = removeSuffixes (Some cleaned)
      in if withoutSuffix \<noteq> [] \<and> withoutSuffix \<noteq> toLowerCase cleaned
         then set_add v1 withoutSuffix else v1)"

definition generateMedicineNameVariations :: "string option \<Rightarrow> string list" where
  "generateMedicineNameVariations medicineName =
     (if \<not> truthy_str medicineName then []
      else
        let variations = base_variations (trim (the medicineName));
            baseVariations = take 3 variations
        in filter (\<lambda>v. length v \<ge> 2) (foldl ocr_variations variations baseVariations))"

subsection \<open>The reference store\<close>

text \<open>
  The table \<^verbatim>\<open>med_details\<close> as the queries of the source read it. A column that may be
  \<^verbatim>\<open>NULL\<close> is an \<open>option\<close>. Strengths, units and the pass-through columns are text.
\<close>

record composition_slot =
  composition_id :: "int option"
  composition_name :: "string option"
  composition_strength :: "string option"
  composition_unit :: "string option"

record med_row =
  med_id :: int
  med_brand_name :: "string option"
  med_generic_id :: "int option"
  med_composition_1 :: composition_slot
  med_composition_2 :: composition_slot
  med_composition_3 :: composition_slot
  med_composition_4 :: composition_slot
  med_composition_5 :: composition_slot
  med_price :: "string option"
  med_manufacturer_name :: "string option"
  med_pack_size :: "string option"
  med_type :: "string option"
  med_weightage :: "int option"
  is_active :: "int option"
  is_deactivated :: "int option"

text \<open>The four statements the source sends, with their parameters.\<close>

datatype db_query =
  ExactQuery string
| FuzzyQuery string nat
| CompositionStrengthQuery string string string nat
| CompositionQuery string nat

text \<open>
  The store: the rows of the table in storage order, the two operations of the
  extension \<^verbatim>\<open>pg_trgm\<close> the composition statements use (\<^verbatim>\<open>similarity(a, b)\<close> and
  \<^verbatim>\<open>a % b\<close>), which are taken as given, and the statements whose execution raises an
  error. The store is a snapshot: the resolver only reads it.
\<close>

record store =
  med_details :: "med_row list"
  pg_similarity :: "string \<Rightarrow> string \<Rightarrow> rat"
  pg_similar :: "string \<Rightarrow> string \<Rightarrow> bool"
  query_fails :: "db_query \<Rightarrow> bool"

text \<open>\<^verbatim>\<open>WHERE md.is_active = 1 AND md.is_deactivated = 0\<close>: a comparison with
  \<^verbatim>\<open>NULL\<close> is not true.\<close>

definition active_row :: "med_row \<Rightarrow> bool" where
  "active_row r = (is_active r = Some 1 \<and> is_deactivated r = Some 0)"

text \<open>
  \<^verbatim>\<open>s LIKE pattern\<close> with the default escape character: \<^verbatim>\<open>%\<close> stands for any run
  of characters, \<^verbatim>\<open>_\<close> for one character, and a backslash takes the next character
  of the pattern literally. The search term goes into the pattern as it is.
\<close>

fun like_match :: "string \<Rightarrow> string \<Rightarrow> bool" where
  "like_match [] s = (s = [])"
| "like_match (p # ps) s =
     (if p = CHR ''%'' then
        (like_match ps s \<or> (case s of [] \<Rightarrow> False | c # cs \<Rightarrow> like_match (p # ps) cs))
      else if p = CHR 0x5C then
        (case ps of
           [] \<Rightarrow> False
         | q # qs \<Rightarrow> (case s of [] \<Rightarrow> False | c # cs \<Rightarrow> c = q \<and> like_match qs cs))
      else if p = CHR ''_'' then
        (case s of [] \<Rightarrow> False | c # cs \<Rightarrow> like_match ps cs)
      else
        (case s of [] \<Rightarrow> False | c # cs \<Rightarrow> c = p \<and> like_match ps cs))"

text \<open>
  \<^verbatim>\<open>ORDER BY\<close> and \<^verbatim>\<open>Array.prototype.sort\<close> are both a stable insertion sort here:
  \<open>lt a b\<close> says that \<open>a\<close> has to come before \<open>b\<close>, and rows that neither precede
  the other keep the order they had.
\<close>

fun insert_by :: "('a \<Rightarrow> 'a \<Rightarrow> bool) \<Rightarrow> 'a \<Rightarrow> 'a list \<Rightarrow> 'a list" where
  "insert_by lt x [] = [x]"
| "insert_by lt x (y # ys) = (if lt y x then y # insert_by lt x ys else x # y # ys)"

definition sort_by :: "('a \<Rightarrow> 'a \<Rightarrow> bool) \<Rightarrow> 'a list \<Rightarrow> 'a list" where
  "sort_by lt xs = foldr (insert_by lt) xs []"

text \<open>\<^verbatim>\<open>md.med_weightage DESC NULLS LAST\<close>.\<close>

definition weightage_before :: "int option \<Rightarrow> int option \<Rightarrow> bool" where
  "weightage_before a b =
     (case a of None \<Rightarrow> False | Some x \<Rightarrow> (case b of None \<Rightarrow> True | Some y \<Rightarrow> x > y))"

text \<open>The statement of \<^verbatim>\<open>tryExactMatch\<close>. \<^verbatim>\<open>LOWER\<close> of the store is taken to
  agree with \<open>toLowerCase\<close> on the characters of the model.\<close>

definition brand_equals :: "med_row \<Rightarrow> string \<Rightarrow> bool" where
  "brand_equals r v =
     (case med_brand_name r of None \<Rightarrow> False | Some b \<Rightarrow> toLowerCase b = toLowerCase v)"

definition exact_rows :: "store \<Rightarrow> string \<Rightarrow> med_row list" where
  "exact_rows db v =
     take 1 (sort_by (\<lambda>a b. weightage_before (med_weightage a) (med_weightage b))
               (filter (\<lambda>r. active_row r \<and> brand_equals r v) (med_details db)))"

text \<open>The statement of \<^verbatim>\<open>tryFuzzyLikeSearch\<close>; a row comes with its \<^verbatim>\<open>match_score\<close>.\<close>

definition brand_like :: "med_row \<Rightarrow> string \<Rightarrow> bool" where
  "brand_like r pat =
     (case med_brand_name r of None \<Rightarrow> False | Some b \<Rightarrow> like_match pat (toLowerCase b))"

definition match_score :: "med_row \<Rightarrow> string \<Rightarrow> int" where
  "match_score r v =
     (if brand_equals r v then 100
      else if brand_like r (toLowerCase v @ ''%'') then 90
      else if brand_like r (''%'' @ toLowerCase v @ ''%'') then 80
      else 70)"

definition fuzzy_rows :: "store \<Rightarrow> string \<Rightarrow> nat \<Rightarrow> (med_row \<times> int) list" where
  "fuzzy_rows db v limit =
     take limit
       (sort_by (\<lambda>a b. snd a > snd b
                   \<or> (snd a = snd b
                       \<and> weightage_before (med_weightage (fst a)) (med_weightage (fst b))))
          (map (\<lambda>r. (r, match_score r v))
             (filter (\<lambda>r. active_row r \<and> brand_like r (''%'' @ toLowerCase v @ ''%''))
                (med_details db))))"

text \<open>The two statements of \<^verbatim>\<open>tryCompositionSearch\<close>.\<close>

definition slots :: "med_row \<Rightarrow> composition_slot list" where
  "slots r = [med_composition_1 r, med_composition_2 r, med_composition_3 r,
              med_composition_4 r, med_composition_5 r]"

definition slot_similar :: "store \<Rightarrow> string \<Rightarrow> composition_slot \<Rightarrow> bool" where
  "slot_similar db nm sl =
     (case composition_name sl of
        None \<Rightarrow> False
      | Some n \<Rightarrow> pg_similar db (toLowerCase n) (toLowerCase nm))"

definition slot_exact :: "store \<Rightarrow> string \<Rightarrow> string \<Rightarrow> string \<Rightarrow> composition_slot \<Rightarrow> bool" where
  "slot_exact db nm st un sl =
     (slot_similar db nm sl \<and> composition_strength sl = Some st
      \<and> (case composition_unit sl of None \<Rightarrow> False | Some u \<Rightarrow> toLowerCase u = toLowerCase un))"

definition slot_similarity :: "store \<Rightarrow> string \<Rightarrow> composition_slot \<Rightarrow> rat" where
  "slot_similarity db nm sl =
     pg_similarity db
       (toLowerCase (case composition_name sl of None \<Rightarrow> [] | Some n \<Rightarrow> n)) (toLowerCase nm)"

definition comp_similarity :: "store \<Rightarrow> string \<Rightarrow> med_row \<Rightarrow> rat" where
  "comp_similarity db nm r =
     max (slot_similarity db nm (med_composition_1 r))
       (max (slot_similarity db nm (med_composition_2 r))
          (max (slot_similarity db nm (med_composition_3 r))
             (max (slot_similarity db nm (med_composition_4 r))
                (slot_similarity db nm (med_composition_5 r)))))"

definition comp_match_score :: "store \<Rightarrow> string \<Rightarrow> string \<Rightarrow> string \<Rightarrow> med_row \<Rightarrow> int" where
  "comp_match_score db nm st un r =
     (if list_ex (slot_exact db nm st un) (slots r) then 100
      else if list_ex (slot_similar db nm) (slots r) then 80
      else 70)"

definition comp_where :: "store \<Rightarrow> string \<Rightarrow> med_row \<Rightarrow> bool" where
  "comp_where db nm r = (active_row r \<and> list_ex (slot_similar db nm) (slots r))"

definition comp_strength_rows ::
  "store \<Rightarrow> string \<Rightarrow> string \<Rightarrow> string \<Rightarrow> nat \<Rightarrow> (med_row \<times> rat \<times> int) list" where
  "comp_strength_rows db nm st un limit =
     take limit
       (sort_by (\<lambda>a b. snd (snd a) > snd (snd b)
                   \<or> (snd (snd a) = snd (snd b)
                       \<and> (fst (snd a) > fst (snd b)
                           \<or> (fst (snd a) = fst (snd b)
                               \<and> weightage_before (med_weightage (fst a))
                                    (med_weightage (fst b))))))
          (map (\<lambda>r. (r, comp_similarity db nm r, comp_match_score db nm st un r))
             (remdups (filter (comp_where db nm) (med_details db)))))"

definition comp_rows :: "store \<Rightarrow> string \<Rightarrow> nat \<Rightarrow> (med_row \<times> rat) list" where
  "comp_rows db nm limit =
     take limit
       (sort_by (\<lambda>a b. snd a > snd b
                   \<or> (snd a = snd b
                       \<and> weightage_before (med_weightage (fst a)) (med_weightage (fst b))))
          (map (\<lambda>r. (r, comp_similarity db nm r))
             (remdups (filter (comp_where db nm) (med_details db)))))"

subsection \<open>formatMedicineResult\<close>

definition buildDoseString :: "string option \<Rightarrow> string option \<Rightarrow> string option" where
  "buildDoseString st un =
     (if truthy_str st \<and> truthy_str un then Some (the st @ the un) else None)"

text \<open>
  \<^verbatim>\<open>buildCompositionString\<close> reads the properties \<^verbatim>\<open>composition{i}_name\<close>,
  \<^verbatim>\<open>composition{i}_strength\<close> and \<^verbatim>\<open>composition{i}_unit\<close> of its argument for
  \<open>i = 1..5\<close>; the argument here is the list of the five triples read.
\<close>

fun join_parts :: "string list \<Rightarrow> string" where
  "join_parts [] = []"
| "join_parts [x] = x"
| "join_parts (x # y # ys) = x @ '' + '' @ join_parts (y # ys)"

definition composition_part ::
  "string option \<times> string option \<times> string option \<Rightarrow> string list" where
  "composition_part t =
     (case t of (nm, st, un) \<Rightarrow>
        if truthy_str nm
        then [the nm @ (if truthy_str st \<and> truthy_str un then '' '' @ the st @ the un else [])]
        else [])"

definition buildCompositionString ::
  "(string option \<times> string option \<times> string option) list \<Rightarrow> string option" where
  "buildCompositionString props =
     (let parts = concat (map composition_part props)
      in if length parts > 0 then Some (join_parts parts) else None)"

record formatted_slot =
  slot_id :: "int option"
  slot_name :: "string option"
  slot_strength :: "string option"
  slot_unit :: "string option"
  slot_dose :: "string option"

record formatted_medicine =
  med_drug_id :: int
  drug_name :: "string option"
  generic_id :: "int option"
  composition1 :: formatted_slot
  composition2 :: formatted_slot
  composition3 :: formatted_slot
  composition4 :: formatted_slot
  composition5 :: formatted_slot
  composition :: "string option"
  mrp :: "string option"
  manufacturer :: "string option"
  pack_size :: "string option"
  type_of_medicine :: "string option"
  weightage :: "int option"

definition format_slot :: "composition_slot \<Rightarrow> formatted_slot" where
  "format_slot sl =
     \<lparr>slot_id = composition_id sl, slot_name = composition_name sl,
      slot_strength = composition_strength sl, slot_unit = composition_unit sl,
      slot_dose = buildDoseString (composition_strength sl) (composition_unit sl)\<rparr>"

text \<open>
  The function is applied to a row of the store, whose columns are named
  \<^verbatim>\<open>med_composition_name_1\<close> and so on: the row has none of the properties that
  \<^verbatim>\<open>buildCompositionString\<close> reads, so each of its fifteen reads is \<^verbatim>\<open>undefined\<close>.
\<close>

definition formatMedicineResult :: "med_row \<Rightarrow> formatted_medicine" where
  "formatMedicineResult medicine =
     \<lparr>med_drug_id = med_id medicine,
      drug_name = med_brand_name medicine,
      generic_id = med_generic_id medicine,
      composition1 = format_slot (med_composition_1 medicine),
      composition2 = format_slot (med_composition_2 medicine),
      composition3 = format_slot (med_composition_3 medicine),
      composition4 = format_slot (med_composition_4 medicine),
      composition5 = format_slot (med_composition_5 medicine),
      composition = buildCompositionString (replicate 5 (None, None, None)),
      mrp = med_price medicine,
      manufacturer = med_manufacturer_name medicine,
      pack_size = med_pack_size medicine,
      type_of_medicine = med_type medicine,
      weightage = med_weightage medicine\<rparr>"

subsection \<open>The three strategies\<close>

text \<open>
  What a strategy does to the world is the list of its events, oldest first: the
  strategies that were called and the statements that were sent to the store.
\<close>

datatype strategy = Exact | Fuzzy | Composition

datatype event = Invoke strategy | Query db_query

record search_result =
  success :: bool
  message :: "string option"
  matched :: "formatted_medicine option"
  confidence :: rat
  matchType :: "string option"
  searchTerm :: "string option"

record candidate =
  medicine :: formatted_medicine
  similarity :: rat
  matchScore :: int
  term_searched :: string

text \<open>\<^verbatim>\<open>tryExactMatch\<close>: a statement that raises is logged and the loop goes on.\<close>

fun tryExactMatch :: "store \<Rightarrow> string list \<Rightarrow> search_result option \<times> event list" where
  "tryExactMatch db [] = (None, [])"
| "tryExactMatch db (variant # rest) =
     (case (if query_fails db (ExactQuery variant) then [] else exact_rows db variant) of
        row # rows \<Rightarrow>
          (Some \<lparr>success = True, message = None,
                 matched = Some (formatMedicineResult row), confidence = 1,
                 matchType = Some ''exact'', searchTerm = Some variant\<rparr>,
           [Query (ExactQuery variant)])
      | [] \<Rightarrow>
          (let (r, evs) = tryExactMatch db rest
           in (r, Query (ExactQuery variant) # evs)))"

definition fuzzy_candidate :: "string \<Rightarrow> med_row \<times> int \<Rightarrow> candidate" where
  "fuzzy_candidate variant row =
     \<lparr>medicine = formatMedicineResult (fst row),
      similarity = calculateSimilarity (Some variant) (med_brand_name (fst row)),
      matchScore = snd row,
      term_searched = variant\<rparr>"

fun tryFuzzyLikeSearch :: "store \<Rightarrow> string list \<Rightarrow> nat \<Rightarrow> candidate list \<times> event list" where
  "tryFuzzyLikeSearch db [] maxResults = ([], [])"
| "tryFuzzyLikeSearch db (variant # rest) maxResults =
     (let found = (if query_fails db (FuzzyQuery variant maxResults) then []
                   else map (fuzzy_candidate variant) (fuzzy_rows db variant maxResults));
          (more, evs) = tryFuzzyLikeSearch db rest maxResults
      in (found @ more, Query (FuzzyQuery variant maxResults) # evs))"

text \<open>\<^verbatim>\<open>row.comp_similarity || 0.7\<close> and \<^verbatim>\<open>row.comp_match_score || 80\<close>: the statement
  without a strength has no column \<^verbatim>\<open>comp_match_score\<close>.\<close>

definition composition_candidate :: "string \<Rightarrow> med_row \<Rightarrow> rat \<Rightarrow> int option \<Rightarrow> candidate" where
  "composition_candidate salt row sim score =
     \<lparr>medicine = formatMedicineResult row,
      similarity = (if sim = 0 then 7 / 10 else sim),
      matchScore = (case score of None \<Rightarrow> 80 | Some n \<Rightarrow> if n = 0 then 80 else n),
      term_searched = salt\<rparr>"

definition tryCompositionSearch ::
  "store \<Rightarrow> string option \<Rightarrow> nat \<Rightarrow> candidate list \<times> event list" where
  "tryCompositionSearch db salt maxResults =
     (if \<not> truthy_str salt then ([], [])
      else
        let extracted = extractStrengthFromName salt;
            nm = (if name extracted \<noteq> [] then name extracted else the salt)
        in if truthy_str (strength extracted) \<and> truthy_str (unit extracted) then
             (let q = CompositionStrengthQuery nm (the (strength extracted))
                        (the (unit extracted)) maxResults
              in (if query_fails db q then []
                  else map (\<lambda>(row, sim, score).
                              composition_candidate (the salt) row sim (Some score))
                         (comp_strength_rows db nm (the (strength extracted))
                            (the (unit extracted)) maxResults),
                  [Query q]))
           else
             (let q = CompositionQuery nm maxResults
              in (if query_fails db q then []
                  else map (\<lambda>(row, sim). composition_candidate (the salt) row sim None)
                         (comp_rows db nm maxResults),
                  [Query q])))"

subsection \<open>fuzzySearchMedicine\<close>

text \<open>The values a caller can pass for the medicine name.\<close>

datatype js_value =
  JsUndefined | JsNull | JsBool bool | JsNum int | JsStr string | JsObject

fun truthy :: "js_value \<Rightarrow> bool" where
  "truthy JsUndefined = False"
| "truthy JsNull = False"
| "truthy (JsBool b) = b"
| "truthy (JsNum n) = (n \<noteq> 0)"
| "truthy (JsStr s) = (s \<noteq> [])"
| "truthy JsObject = True"

text \<open>The options object; a field that is \<open>None\<close> is absent and takes its default.\<close>

record options =
  minSimilarity :: "rat option"
  maxResults :: "nat option"
  includeSalt :: "string option"
  preferExactMatch :: "bool option"

definition validation_failure :: search_result where
  "validation_failure =
     \<lparr>success = False,
      message = Some ''Medicine name must be at least 2 characters long'',
      matched = None, confidence = 0, matchType = None, searchTerm = None\<rparr>"

definition no_match :: search_result where
  "no_match =
     \<lparr>success = False, message = Some ''No matching medicine found'',
      matched = None, confidence = 0, matchType = None, searchTerm = None\<rparr>"

text \<open>The comparator of the final sort and the sort itself.\<close>

definition weightage_or_0 :: "candidate \<Rightarrow> int" where
  "weightage_or_0 c = (case weightage (medicine c) of None \<Rightarrow> 0 | Some w \<Rightarrow> w)"

definition compare_candidates :: "candidate \<Rightarrow> candidate \<Rightarrow> rat" where
  "compare_candidates a b =
     (if matchScore b \<noteq> matchScore a then of_int (matchScore b - matchScore a)
      else if similarity b \<noteq> similarity a then similarity b - similarity a
      else of_int (weightage_or_0 b - weightage_or_0 a))"

definition rank_candidates :: "candidate list \<Rightarrow> candidate list" where
  "rank_candidates cs = sort_by (\<lambda>a b. compare_candidates a b < 0) cs"

text \<open>Steps 3 and 4: the fuzzy strategy, then the composition strategy if a salt was
  given and nothing was found.\<close>

definition collect_candidates ::
  "store \<Rightarrow> string list \<Rightarrow> string option \<Rightarrow> nat \<Rightarrow> candidate list \<times> event list" where
  "collect_candidates db variations salt limit =
     (let (fuzzyResults, evs) = tryFuzzyLikeSearch db variations limit
      in if truthy_str salt \<and> length fuzzyResults = 0 then
           (let (compositionResults, evs') = tryCompositionSearch db salt limit
            in (fuzzyResults @ compositionResults,
                Invoke Fuzzy # evs @ Invoke Composition # evs'))
         else (fuzzyResults, Invoke Fuzzy # evs))"

text \<open>Step 5: sort, take the first, compare its similarity with the threshold.\<close>

definition best_match :: "candidate list \<Rightarrow> rat \<Rightarrow> search_result" where
  "best_match fuzzyResults threshold =
     (case rank_candidates fuzzyResults of
        [] \<Rightarrow> no_match
      | bestMatch # others \<Rightarrow>
          if similarity bestMatch \<ge> threshold then
            \<lparr>success = True, message = None,
             matched = Some (medicine bestMatch),
             confidence = similarity bestMatch,
             matchType = Some (if matchScore bestMatch = 100 then ''exact-composition''
                               else ''fuzzy''),
             searchTerm = Some (term_searched bestMatch)\<rparr>
          else no_match)"

definition invalid_name :: "js_value \<Rightarrow> bool" where
  "invalid_name medicineName =
     (\<not> truthy medicineName
      \<or> (case medicineName of JsStr s \<Rightarrow> length (trim s) < 2 | _ \<Rightarrow> True))"

definition fuzzySearchMedicine ::
  "store \<Rightarrow> js_value \<Rightarrow> options \<Rightarrow> search_result \<times> event list" where
  "fuzzySearchMedicine db medicineName opts =
     (let threshold = (case minSimilarity opts of None \<Rightarrow> 7 / 10 | Some m \<Rightarrow> m);
          limit = (case maxResults opts of None \<Rightarrow> 5 | Some n \<Rightarrow> n);
          salt = includeSalt opts;
          preferExact = (case preferExactMatch opts of None \<Rightarrow> True | Some b \<Rightarrow> b)
      in case medicineName of
           JsStr s \<Rightarrow>
             if invalid_name medicineName then (validation_failure, [])
             else
               let variations = generateMedicineNameVariations (Some s);
                   (exactMatch, evs1) =
                     (if preferExact
                      then (let (r, evs) = tryExactMatch db variations
                            in (r, Invoke Exact # evs))
                      else (None, []))
               in (case exactMatch of
                     Some r \<Rightarrow> (r, evs1)
                   | None \<Rightarrow>
                       (let (fuzzyResults, evs2) = collect_candidates db variations salt limit
                        in (best_match fuzzyResults threshold, evs1 @ evs2)))
         | _ \<Rightarrow> (validation_failure, []))"

text \<open>
  The salt that reaches the resolver from a batch is whatever the caller put into the
  item. \<^verbatim>\<open>tryCompositionSearch\<close> calls \<^verbatim>\<open>extractStrengthFromName(salt)\<close> before its
  \<^verbatim>\<open>try\<close> block, and that function calls \<^verbatim>\<open>salt.match\<close>: for a salt that is truthy
  and not a string this raises a TypeError that nothing in the resolver catches. An
  outcome is a returned value or that exception.
\<close>

datatype 'a outcome = Returned 'a | Thrown

definition tryCompositionSearch_any ::
  "store \<Rightarrow> js_value \<Rightarrow> nat \<Rightarrow> (candidate list \<times> event list) outcome" where
  "tryCompositionSearch_any db salt limit =
     (if \<not> truthy salt then Returned ([], [])
      else case salt of
             JsStr s \<Rightarrow> Returned (tryCompositionSearch db (Some s) limit)
           | _ \<Rightarrow> Thrown)"

text \<open>\<^verbatim>\<open>fuzzySearchMedicine\<close> once more, for options whose \<^verbatim>\<open>includeSalt\<close> is the
  value given as last argument; on a string or a falsy value it is the function above.\<close>

definition fuzzySearchMedicine_any ::
  "store \<Rightarrow> js_value \<Rightarrow> options \<Rightarrow> js_value \<Rightarrow> (search_result \<times> event list) outcome" where
  "fuzzySearchMedicine_any db medicineName opts salt =
     (let threshold = (case minSimilarity opts of None \<Rightarrow> 7 / 10 | Some m \<Rightarrow> m);
          limit = (case maxResults opts of None \<Rightarrow> 5 | Some n \<Rightarrow> n);
          preferExact = (case preferExactMatch opts of None \<Rightarrow> True | Some b \<Rightarrow> b)
      in case medicineName of
           JsStr s \<Rightarrow>
             if invalid_name medicineName then Returned (validation_failure, [])
             else
               let variations = generateMedicineNameVariations (Some s);
                   (exactMatch, evs1) =
                     (if preferExact
                      then (let (r, evs) = tryExactMatch db variations
                            in (r, Invoke Exact # evs))
                      else (None, []))
               in (case exactMatch of
                     Some r \<Rightarrow> Returned (r, evs1)
                   | None \<Rightarrow>
                       (let (fuzzyResults, evs2) = tryFuzzyLikeSearch db variations limit
                        in if truthy salt \<and> length fuzzyResults = 0 then
                             (case tryCompositionSearch_any db salt limit of
                                Thrown \<Rightarrow> Thrown
                              | Returned (compositionResults, evs3) \<Rightarrow>
                                  Returned
                                    (best_match (fuzzyResults @ compositionResults) threshold,
                                     evs1 @ Invoke Fuzzy # evs2 @ Invoke Composition # evs3))
                           else Returned (best_match fuzzyResults threshold,
                                          evs1 @ Invoke Fuzzy # evs2)))
         | _ \<Rightarrow> Returned (validation_failure, []))"

subsection \<open>batchFuzzySearch\<close>

text \<open>
  An element of the array is an object with a name and a salt of any value (a property
  that is missing is \<^verbatim>\<open>undefined\<close>), or it is \<^verbatim>\<open>null\<close> or \<^verbatim>\<open>undefined\<close> itself,
  which is \<open>None\<close>: reading \<^verbatim>\<open>medicine.medicine_name\<close> then raises a TypeError. The loop
  has no \<^verbatim>\<open>try\<close>, so an exception of one item ends the whole call.
\<close>

record batch_item =
  medicine_name :: js_value
  medicine_salt :: js_value

record batch_result =
  original :: batch_item
  searchResult :: search_result
  index :: nat

text \<open>The first argument is an array or something else.\<close>

datatype medicines_arg = NotArray js_value | Array "batch_item option list"

fun batch_loop ::
  "store \<Rightarrow> options \<Rightarrow> nat \<Rightarrow> batch_item option list
   \<Rightarrow> (batch_result list \<times> event list) outcome" where
  "batch_loop db opts i [] = Returned ([], [])"
| "batch_loop db opts i (m # ms) =
     (case m of
        None \<Rightarrow> Thrown
      | Some item \<Rightarrow>
          (case fuzzySearchMedicine_any db (medicine_name item) opts
                  (medicine_salt item) of
             Thrown \<Rightarrow> Thrown
           | Returned (r, evs) \<Rightarrow>
               (case batch_loop db opts (Suc i) ms of
                  Thrown \<Rightarrow> Thrown
                | Returned (rs, evs') \<Rightarrow>
                    Returned (\<lparr>original = item, searchResult = r, index = i\<rparr> # rs,
                              evs @ evs'))))"

definition batchFuzzySearch ::
  "store \<Rightarrow> medicines_arg \<Rightarrow> options \<Rightarrow> (batch_result list \<times> event list) outcome" where
  "batchFuzzySearch db medicines opts =
     (case medicines of
        NotArray v \<Rightarrow> Returned ([], [])
      | Array items \<Rightarrow>
          if length items = 0 then Returned ([], []) else batch_loop db opts 0 items)"

subsection \<open>The caller: batchSearchMedicines (controllers/medicine/medicineController.js)\<close>

text \<open>The checks the controller makes on \<^verbatim>\<open>req.body.medicines\<close> before it calls
  \<^verbatim>\<open>batchFuzzySearch\<close>; each failure is answered with status 400, and an exception
  in the handler with the answer "Failed to perform batch search". The salt of an item
  is not checked.\<close>

datatype api_error =
  MedicinesRequired | MedicinesNotArray | MedicinesEmpty | TooManyMedicines
| NameRequired nat | NameTooShort nat | HandlerFailed

fun validate_items :: "nat \<Rightarrow> batch_item option list \<Rightarrow> api_error option" where
  "validate_items i [] = None"
| "validate_items i (m # ms) =
     (case m of
        None \<Rightarrow> Some HandlerFailed
      | Some item \<Rightarrow>
          if \<not> truthy (medicine_name item) then Some (NameRequired i)
          else if (case medicine_name item of
                     JsStr s \<Rightarrow> length (trim s) < 2 | _ \<Rightarrow> True)
          then Some (NameTooShort i)
          else validate_items (Suc i) ms)"

definition validate_medicines :: "medicines_arg \<Rightarrow> api_error option" where
  "validate_medicines medicines =
     (case medicines of
        NotArray v \<Rightarrow> if \<not> truthy v then Some MedicinesRequired else Some MedicinesNotArray
      | Array items \<Rightarrow>
          if length items = 0 then Some MedicinesEmpty
          else if length items > 100 then Some TooManyMedicines
          else validate_items 0 items)"

subsection \<open>Notions of the specification\<close>

text \<open>The three rules of the similarity score as the specification words them, on two
  strings as they are.\<close>

definition similarity_rules :: "string \<Rightarrow> string \<Rightarrow> rat" where
  "similarity_rules a b =
     (if toLowerCase a = toLowerCase b then 1
      else if includes_str (toLowerCase a) (toLowerCase b)
              \<or> includes_str (toLowerCase b) (toLowerCase a)
      then (4 / 5) * (of_nat (min (length a) (length b)) / of_nat (max (length a) (length b)))
      else max 0 (1 - of_nat (levenshteinDistance a b) / of_nat (max (length a) (length b))))"

text \<open>
  A dose token as the specification describes it: a number (digits, or digits, a dot
  and digits), white space or none, and a unit in either case.
\<close>

definition number_token :: "string \<Rightarrow> bool" where
  "number_token n \<longleftrightarrow>
     (\<exists>ds. ds \<noteq> [] \<and> list_all is_digit ds
        \<and> (n = ds \<or> (\<exists>fs. fs \<noteq> [] \<and> list_all is_digit fs \<and> n = ds @ CHR ''.'' # fs)))"

definition unit_token :: "string \<Rightarrow> bool" where
  "unit_token u \<longleftrightarrow> toLowerCase u \<in> set DOSE_UNITS"

definition dose_token :: "string \<Rightarrow> bool" where
  "dose_token t \<longleftrightarrow>
     (\<exists>n ws u. t = n @ ws @ u \<and> number_token n \<and> list_all is_space ws \<and> unit_token u)"

text \<open>The threshold and the limit in force, and the ranked candidates of a search that
  got past the exact strategy.\<close>

definition threshold_of :: "options \<Rightarrow> rat" where
  "threshold_of opts = (case minSimilarity opts of None \<Rightarrow> 7 / 10 | Some m \<Rightarrow> m)"

definition limit_of :: "options \<Rightarrow> nat" where
  "limit_of opts = (case maxResults opts of None \<Rightarrow> 5 | Some n \<Rightarrow> n)"

definition exact_hit :: "store \<Rightarrow> string \<Rightarrow> options \<Rightarrow> search_result option" where
  "exact_hit db s opts =
     (if preferExactMatch opts = Some False then None
      else fst (tryExactMatch db (generateMedicineNameVariations (Some s))))"

definition fuzzy_candidates :: "store \<Rightarrow> string \<Rightarrow> options \<Rightarrow> candidate list" where
  "fuzzy_candidates db s opts =
     fst (tryFuzzyLikeSearch db (generateMedicineNameVariations (Some s)) (limit_of opts))"

definition ranked_candidates :: "store \<Rightarrow> string \<Rightarrow> options \<Rightarrow> candidate list" where
  "ranked_candidates db s opts =
     rank_candidates
       (fst (collect_candidates db (generateMedicineNameVariations (Some s))
               (includeSalt opts) (limit_of opts)))"

text \<open>A salt that is a string or falsy, and the \<open>includeSalt\<close> it stands for.\<close>

definition salt_of :: "js_value \<Rightarrow> string option" where
  "salt_of v = (case v of JsStr s \<Rightarrow> Some s | _ \<Rightarrow> None)"

definition plain_salt :: "js_value \<Rightarrow> bool" where
  "plain_salt v = (case v of JsStr s \<Rightarrow> True | _ \<Rightarrow> \<not> truthy v)"

subsection \<open>A small catalogue for the examples\<close>

definition default_options :: options where
  "default_options =
     \<lparr>minSimilarity = None, maxResults = None, includeSalt = None, preferExactMatch = None\<rparr>"

definition no_slot :: composition_slot where
  "no_slot = \<lparr>composition_id = None, composition_name = None,
              composition_strength = None, composition_unit = None\<rparr>"

definition catalogue_row ::
  "int \<Rightarrow> string \<Rightarrow> composition_slot \<Rightarrow> int option \<Rightarrow> int \<Rightarrow> int \<Rightarrow> med_row" where
  "catalogue_row i brand slot1 w act deact =
     \<lparr>med_id = i, med_brand_name = Some brand, med_generic_id = None,
      med_composition_1 = slot1, med_composition_2 = no_slot, med_composition_3 = no_slot,
      med_composition_4 = no_slot, med_composition_5 = no_slot,
      med_price = None, med_manufacturer_name = None, med_pack_size = None,
      med_type = None, med_weightage = w, is_active = Some act, is_deactivated = Some deact\<rparr>"

definition paracetamol_500 :: composition_slot where
  "paracetamol_500 = \<lparr>composition_id = Some 1, composition_name = Some ''Paracetamol'',
                      composition_strength = Some ''500'', composition_unit = Some ''mg''\<rparr>"

text \<open>
  The trigram operations of the example follow the extension \<^verbatim>\<open>pg_trgm\<close>: a text
  is put in lower case and cut into words of letters and digits, each word is padded
  with two blanks in front and one behind, the trigrams are the distinct runs of three
  characters, the similarity of two texts is the number of shared trigrams over the
  number of all their trigrams, and two texts are similar from the default threshold
  \<open>0.3\<close> on.
\<close>

definition is_word_char :: "char \<Rightarrow> bool" where
  "is_word_char c \<longleftrightarrow> toLowerCase_char c \<in> set ''abcdefghijklmnopqrstuvwxyz0123456789''"

primrec split_words :: "string \<Rightarrow> string \<Rightarrow> string list" where
  "split_words [] cur = (if cur = [] then [] else [cur])"
| "split_words (c # cs) cur =
     (if is_word_char c then split_words cs (cur @ [c])
      else (if cur = [] then [] else [cur]) @ split_words cs [])"

fun windows3 :: "string \<Rightarrow> string list" where
  "windows3 (a # b # c # r) = [a, b, c] # windows3 (b # c # r)"
| "windows3 r = []"

definition trigrams :: "string \<Rightarrow> string list" where
  "trigrams s =
     remdups (concat (map (\<lambda>w. windows3 (''  '' @ w @ '' ''))
                        (split_words (toLowerCase s) [])))"

definition trgm_similarity :: "string \<Rightarrow> string \<Rightarrow> rat" where
  "trgm_similarity a b =
     (let ta = trigrams a; tb = trigrams b;
          shared = length (filter (\<lambda>t. t \<in> set tb) ta);
          total = length ta + length tb - shared
      in if total = 0 then 0 else of_nat shared / of_nat total)"

text \<open>Three rows: two on sale and a withdrawn one.\<close>

definition demo_store :: store where
  "demo_store =
     \<lparr>med_details =
        [catalogue_row 1 ''Paracetamol'' no_slot None 1 0,
         catalogue_row 2 ''Calpol'' paracetamol_500 (Some 3) 1 0,
         catalogue_row 3 ''Dolo'' paracetamol_500 None 0 1],
      pg_similarity = trgm_similarity,
      pg_similar = (\<lambda>a b. trgm_similarity a b \<ge> 3 / 10),
      query_fails = (\<lambda>q. False)\<rparr>"

text \<open>A batch of three items whose second name is too short, and a batch whose first
  item has a number as salt.\<close>

definition demo_items :: "batch_item option list" where
  "demo_items =
     [Some \<lparr>medicine_name = JsStr ''Calpol'', medicine_salt = JsUndefined\<rparr>,
      Some \<lparr>medicine_name = JsStr ''a'', medicine_salt = JsStr ''Paracetamol 500mg''\<rparr>,
      Some \<lparr>medicine_name = JsStr ''Paracetamol'', medicine_salt = JsNull\<rparr>]"

definition bad_salt_items :: "batch_item option list" where
  "bad_salt_items =
     [Some \<lparr>medicine_name = JsStr ''zzzz'', medicine_salt = JsNum 5\<rparr>,
      Some \<lparr>medicine_name = JsStr ''Calpol'', medicine_salt = JsUndefined\<rparr>]"

text \<open>Default options that carry a salt.\<close>

definition salt_options :: "string \<Rightarrow> options" where
  "salt_options salt = \<lparr>minSimilarity = None, maxResults = None,
      includeSalt = Some salt, preferExactMatch = None\<rparr>"

section \<open>Characters by their bits\<close>

text \<open>The three character classes, restated on the eight bits of a character (lowest
  bit first) so that examples evaluate without arithmetic.\<close>

lemma toLowerCase_char_code [code]:
  "toLowerCase_char (Char b0 b1 b2 b3 b4 b5 b6 b7) =
     (if b6 \<and> \<not> b5
         \<and> (if b7 then \<not> (b0 \<and> b1 \<and> b2 \<and> b4)
             else (b0 \<or> b1 \<or> b2 \<or> b3 \<or> b4) \<and> \<not> (b4 \<and> b3 \<and> (b2 \<or> (b1 \<and> b0))))
      then Char b0 b1 b2 b3 b4 True b6 b7
      else Char b0 b1 b2 b3 b4 b5 b6 b7)"
  by (cases b0; cases b1; cases b2; cases b3; cases b4; cases b5; cases b6; cases b7;
      simp add: toLowerCase_char_def char_of_def bit_0)

lemma is_space_code [code]:
  "is_space (Char b0 b1 b2 b3 b4 b5 b6 b7) =
     (if b5 then \<not> (b0 \<or> b1 \<or> b2 \<or> b3 \<or> b4 \<or> b6)
      else \<not> (b4 \<or> b6 \<or> b7) \<and> b3 \<and> \<not> (b2 \<and> b1) \<and> (b0 \<or> b1 \<or> b2))"
  by (cases b0; cases b1; cases b2; cases b3; cases b4; cases b5; cases b6; cases b7;
      simp add: is_space_def)

lemma is_digit_code [code]:
  "is_digit (Char b0 b1 b2 b3 b4 b5 b6 b7) =
     (b5 \<and> b4 \<and> \<not> b6 \<and> \<not> b7 \<and> (\<not> b3 \<or> (\<not> b2 \<and> \<not> b1)))"
  by (cases b0; cases b1; cases b2; cases b3; cases b4; cases b5; cases b6; cases b7;
      simp add: is_digit_def)

section \<open>Validation and the batch runner\<close>

lemma fuzzySearchMedicine_invalid:
  "invalid_name medicineName \<Longrightarrow>
   fuzzySearchMedicine db medicineName opts = (validation_failure, [])"
  by (cases medicineName) (simp_all add: fuzzySearchMedicine_def Let_def)

lemma validation_failure_fields:
  "success validation_failure = False" "confidence validation_failure = 0"
  "validation_failure \<noteq> no_match"
  by (simp_all add: validation_failure_def no_match_def)

text \<open>
  Claim C7. A medicine name that is not a string, or whose trimmed length is below 2,
  is answered with the validation failure (\<open>success = False\<close>, \<open>confidence = 0\<close>, a
  message other than that of "no match"), whatever the store holds, and the list of
  events is empty: no strategy was called and no statement was sent.
\<close>

theorem validation_fails_fast:
  assumes "case medicineName of JsStr s \<Rightarrow> length (trim s) < 2 | _ \<Rightarrow> True"
  shows "fuzzySearchMedicine db medicineName opts = (validation_failure, [])
         \<and> success validation_failure = False \<and> confidence validation_failure = 0
         \<and> validation_failure \<noteq> no_match"
proof -
  from assms have "invalid_name medicineName"
    by (cases medicineName) (simp_all add: invalid_name_def)
  then show ?thesis
    by (simp add: fuzzySearchMedicine_invalid validation_failure_fields)
qed

theorem validation_fails_fast_witness:
  "length (trim ''a'') < 2
   \<and> fuzzySearchMedicine demo_store (JsStr ''a'') default_options = (validation_failure, [])
   \<and> fuzzySearchMedicine demo_store (JsNum 7) default_options = (validation_failure, [])"
proof -
  have h: "length (trim ''a'') < 2" by code_simp
  have a: "case JsStr ''a'' of JsStr s \<Rightarrow> length (trim s) < 2 | _ \<Rightarrow> True"
    using h by simp
  have b: "case JsNum 7 of JsStr s \<Rightarrow> length (trim s) < 2 | _ \<Rightarrow> True"
    by simp
  show ?thesis
    using h validation_fails_fast [OF a, of demo_store default_options]
      validation_fails_fast [OF b, of demo_store default_options]
    by simp
qed

text \<open>
  Claim C10. \<^verbatim>\<open>batchFuzzySearch\<close> on something that is not an array, or on the empty
  array, returns the empty list and no event; it is the controller that rejects both.
\<close>

theorem empty_batch:
  "batchFuzzySearch db (NotArray v) opts = Returned ([], [])
   \<and> batchFuzzySearch db (Array []) opts = Returned ([], [])
   \<and> validate_medicines (NotArray v) \<noteq> None
   \<and> validate_medicines (Array []) = Some MedicinesEmpty"
  by (simp add: batchFuzzySearch_def validate_medicines_def)

theorem empty_batch_witness:
  "batchFuzzySearch demo_store (NotArray (JsStr ''Calpol'')) default_options = Returned ([], [])
   \<and> batchFuzzySearch demo_store (Array []) default_options = Returned ([], [])
   \<and> validate_medicines (NotArray (JsStr ''Calpol'')) = Some MedicinesNotArray"
  using empty_batch [of demo_store "JsStr ''Calpol''" default_options]
  by (simp add: validate_medicines_def)

text \<open>On a salt that is a string or falsy the general function is the one for string
  salts, and it returns.\<close>

lemma fuzzySearchMedicine_any_plain:
  assumes "plain_salt v"
  shows "fuzzySearchMedicine_any db medicineName opts v
           = Returned (fuzzySearchMedicine db medicineName (opts\<lparr>includeSalt := salt_of v\<rparr>))"
proof -
  have t: "truthy v = truthy_str (salt_of v)"
    using assms by (cases v) (simp_all add: plain_salt_def salt_of_def truthy_str_def)
  have c: "truthy v \<Longrightarrow> tryCompositionSearch_any db v k
             = Returned (tryCompositionSearch db (salt_of v) k)" for k
    using assms by (cases v) (simp_all add: plain_salt_def salt_of_def tryCompositionSearch_any_def)
  show ?thesis
    by (cases medicineName)
      (auto simp: fuzzySearchMedicine_any_def fuzzySearchMedicine_def collect_candidates_def
        Let_def split_beta t [symmetric] c split: option.splits)
qed

lemma batch_loop_plain:
  assumes "\<forall>m \<in> set ms. \<exists>item. m = Some item \<and> plain_salt (medicine_salt item)"
  shows "\<exists>rs evs. batch_loop db opts i ms = Returned (rs, evs) \<and> length rs = length ms
           \<and> (\<forall>k < length ms.
                 rs ! k =
                   \<lparr>original = the (ms ! k),
                    searchResult =
                      fst (fuzzySearchMedicine db (medicine_name (the (ms ! k)))
                             (opts\<lparr>includeSalt := salt_of (medicine_salt (the (ms ! k)))\<rparr>)),
                    index = i + k\<rparr>)"
  using assms
proof (induction ms arbitrary: i)
  case Nil
  then show ?case by simp
next
  case (Cons m ms)
  from Cons.prems obtain item where m: "m = Some item" and p: "plain_salt (medicine_salt item)"
    by auto
  from Cons.prems have "\<forall>m \<in> set ms. \<exists>item. m = Some item \<and> plain_salt (medicine_salt item)"
    by simp
  from Cons.IH [OF this, of "Suc i"] obtain rs evs
    where rest: "batch_loop db opts (Suc i) ms = Returned (rs, evs)"
      and len: "length rs = length ms"
      and nth: "\<forall>k < length ms.
                 rs ! k =
                   \<lparr>original = the (ms ! k),
                    searchResult =
                      fst (fuzzySearchMedicine db (medicine_name (the (ms ! k)))
                             (opts\<lparr>includeSalt := salt_of (medicine_salt (the (ms ! k)))\<rparr>)),
                    index = Suc i + k\<rparr>"
    by blast
  let ?R = "fuzzySearchMedicine db (medicine_name item)
              (opts\<lparr>includeSalt := salt_of (medicine_salt item)\<rparr>)"
  let ?e = "\<lparr>original = item, searchResult = fst ?R, index = i\<rparr>"
  have step: "batch_loop db opts i (m # ms) = Returned (?e # rs, snd ?R @ evs)"
    by (simp add: m fuzzySearchMedicine_any_plain [OF p] rest split_beta)
  have "\<forall>k < length (m # ms).
          (?e # rs) ! k =
            \<lparr>original = the ((m # ms) ! k),
             searchResult =
               fst (fuzzySearchMedicine db (medicine_name (the ((m # ms) ! k)))
                      (opts\<lparr>includeSalt := salt_of (medicine_salt (the ((m # ms) ! k)))\<rparr>)),
             index = i + k\<rparr>"
  proof (intro allI impI)
    fix k assume "k < length (m # ms)"
    then show "(?e # rs) ! k =
            \<lparr>original = the ((m # ms) ! k),
             searchResult =
               fst (fuzzySearchMedicine db (medicine_name (the ((m # ms) ! k)))
                      (opts\<lparr>includeSalt := salt_of (medicine_salt (the ((m # ms) ! k)))\<rparr>)),
             index = i + k\<rparr>"
      using nth m by (cases k) simp_all
  qed
  with step len show ?case by simp
qed

text \<open>
  What the batch runner does when every element is an object whose salt is a string or
  falsy: it returns as many entries as there are items, in their order, and entry \<open>k\<close>
  carries item \<open>k\<close>, the index \<open>k\<close> and the result of \<^verbatim>\<open>fuzzySearchMedicine\<close> on the
  name of item \<open>k\<close> with its salt as \<open>includeSalt\<close>.
\<close>

lemma batch_order:
  assumes "\<forall>m \<in> set items. \<exists>item. m = Some item \<and> plain_salt (medicine_salt item)"
  shows "\<exists>rs evs. batchFuzzySearch db (Array items) opts = Returned (rs, evs)
           \<and> length rs = length items
           \<and> (\<forall>k < length items.
                 rs ! k =
                   \<lparr>original = the (items ! k),
                    searchResult =
                      fst (fuzzySearchMedicine db (medicine_name (the (items ! k)))
                             (opts\<lparr>includeSalt := salt_of (medicine_salt (the (items ! k)))\<rparr>)),
                    index = k\<rparr>)"
proof (cases items)
  case Nil
  then show ?thesis by (simp add: batchFuzzySearch_def)
next
  case (Cons m ms)
  then have "batchFuzzySearch db (Array items) opts = batch_loop db opts 0 items"
    by (simp add: batchFuzzySearch_def)
  with batch_loop_plain [OF assms, of db opts 0] show ?thesis by simp
qed

lemma batch_order_example:
  "(case batchFuzzySearch demo_store (Array demo_items) default_options of
      Returned (rs, evs) \<Rightarrow>
        length rs = 3 \<and> map index rs = [0, 1, 2]
        \<and> map (success \<circ> searchResult) rs = [True, False, True]
        \<and> searchResult (rs ! 1) = validation_failure
    | Thrown \<Rightarrow> False)"
  by code_simp

text \<open>
  Claim C8 fails on the code. The claim: every list of \<open>n\<close> items gives \<open>n\<close> entries
  in the order of the input, and the failure of one item neither ends the batch nor
  changes another entry. The code: the first of these two items has the number 5 as
  salt and a name that no brand matches, so the composition strategy is called with the
  number and raises; the controller lets the batch through, and the call ends with the
  exception instead of two entries.
\<close>

theorem batch_aborts_on_bad_salt:
  "validate_medicines (Array bad_salt_items) = None
   \<and> batchFuzzySearch demo_store (Array bad_salt_items) default_options = Thrown
   \<and> fuzzySearchMedicine_any demo_store (JsStr ''Calpol'') default_options JsUndefined
       \<noteq> Thrown"
  by code_simp

section \<open>The similarity score\<close>

lemma toLowerCase_char_idem [simp]:
  "toLowerCase_char (toLowerCase_char c) = toLowerCase_char c"
  by (auto simp: toLowerCase_char_def Let_def)

lemma is_space_toLowerCase_char [simp]:
  "is_space (toLowerCase_char c) = is_space c"
  by (auto simp: toLowerCase_char_def is_space_def Let_def)

lemma toLowerCase_idem [simp]: "toLowerCase (toLowerCase s) = toLowerCase s"
  by (simp add: toLowerCase_def)

lemma length_toLowerCase [simp]: "length (toLowerCase s) = length s"
  by (simp add: toLowerCase_def)

lemma is_space_comp_lower: "is_space \<circ> toLowerCase_char = is_space"
  by (rule ext) simp

lemma trimEnd_toLowerCase: "trimEnd (toLowerCase s) = toLowerCase (trimEnd s)"
  by (simp add: trimEnd_def toLowerCase_def rev_map dropWhile_map is_space_comp_lower)

lemma trim_toLowerCase: "trim (toLowerCase s) = toLowerCase (trim s)"
proof -
  have "dropWhile is_space (toLowerCase s) = toLowerCase (dropWhile is_space s)"
    by (simp add: toLowerCase_def dropWhile_map is_space_comp_lower)
  then show ?thesis
    by (simp add: trim_def trimEnd_toLowerCase)
qed

lemma subst_cost_lower [simp]:
  "subst_cost (toLowerCase_char a) b = subst_cost a b"
  "subst_cost a (toLowerCase_char b) = subst_cost a b"
  by (simp_all add: subst_cost_def)

lemma fill_row_lower:
  "fill_row (toLowerCase_char a) (map toLowerCase_char bs) ups left = fill_row a bs ups left"
  by (induction a bs ups left rule: fill_row.induct) (simp_all add: Let_def)

lemma next_row_lower:
  "next_row (toLowerCase t) ups (toLowerCase_char a) = next_row t ups a"
  by (simp add: next_row_def toLowerCase_def fill_row_lower)

lemma levenshteinDistance_lower:
  "levenshteinDistance (toLowerCase s) (toLowerCase t) = levenshteinDistance s t"
proof -
  have "foldl (next_row (toLowerCase t)) r (toLowerCase s) = foldl (next_row t) r s" for r
    by (induction s arbitrary: r) (simp_all add: toLowerCase_def next_row_lower [unfolded toLowerCase_def])
  then show ?thesis
    by (simp add: levenshteinDistance_def)
qed

lemma length_fill_row:
  "length (fill_row a bs ups left) = min (length bs) (length ups - 1)"
  by (induction a bs ups left rule: fill_row.induct) (simp_all add: Let_def)

lemma length_next_row:
  "length ups = length t + 1 \<Longrightarrow> length (next_row t ups a) = length t + 1"
  by (simp add: next_row_def Let_def length_fill_row)

lemma length_lev_row [simp]: "length (lev_row s t) = length t + 1"
proof -
  have "length r = length t + 1 \<Longrightarrow> length (foldl (next_row t) r s) = length t + 1" for r
    by (induction s arbitrary: r) (simp_all add: length_next_row)
  then show ?thesis by (simp add: lev_row_def)
qed

lemma lev_row_snoc: "lev_row (s @ [a]) t = next_row t (lev_row s t) a"
  by (simp add: lev_row_def)

lemma take_fill_row:
  "take k (fill_row a bs ups left) = fill_row a (take k bs) (take (Suc k) ups) left"
proof (induction bs arbitrary: ups left k)
  case Nil
  then show ?case by simp
next
  case (Cons b bs)
  show ?case
  proof (cases ups)
    case Nil
    then show ?thesis by simp
  next
    case outer: (Cons d us)
    show ?thesis
    proof (cases us)
      case Nil
      with outer show ?thesis by (cases k) simp_all
    next
      case inner: (Cons u rest)
      show ?thesis
      proof (cases k)
        case 0
        then show ?thesis by simp
      next
        case (Suc j)
        with outer inner Cons.IH [of j "u # rest"] show ?thesis
          by (simp add: Let_def)
      qed
    qed
  qed
qed

lemma take_next_row:
  "ups \<noteq> [] \<Longrightarrow>
   take (Suc k) (next_row t ups a) = next_row (take k t) (take (Suc k) ups) a"
  by (cases ups) (simp_all add: next_row_def Let_def take_fill_row)

lemma take_lev_row:
  "k \<le> length t \<Longrightarrow> take (Suc k) (lev_row s t) = lev_row s (take k t)"
proof (induction s rule: rev_induct)
  case Nil
  then show ?case by (simp add: lev_row_def take_upt min_def)
next
  case (snoc a s)
  have "lev_row s t \<noteq> []" using length_lev_row [of s t] by (cases "lev_row s t") simp_all
  with snoc show ?case by (simp add: lev_row_snoc take_next_row)
qed

lemma levenshteinDistance_nth:
  "levenshteinDistance s t = lev_row s t ! length t"
proof -
  have l: "length (lev_row s t) = length t + 1" by simp
  then have ne: "lev_row s t \<noteq> []" by (cases "lev_row s t") simp_all
  have "levenshteinDistance s t = last (lev_row s t)"
    unfolding levenshteinDistance_def lev_row_def by (rule refl)
  also have "\<dots> = lev_row s t ! (length (lev_row s t) - 1)"
    using ne by (rule last_conv_nth)
  also have "\<dots> = lev_row s t ! length t"
    unfolding l by simp
  finally show ?thesis .
qed

lemma lev_row_nth:
  assumes "k \<le> length t"
  shows "lev_row s t ! k = levenshteinDistance s (take k t)"
proof -
  have "lev_row s t ! k = take (Suc k) (lev_row s t) ! k" by simp
  also have "\<dots> = lev_row s (take k t) ! k" using assms by (simp add: take_lev_row)
  also have "\<dots> = levenshteinDistance s (take k t)"
    using assms by (simp add: levenshteinDistance_nth min_def)
  finally show ?thesis .
qed

lemma fill_row_nth:
  "j < length bs \<Longrightarrow> length ups = length bs + 1 \<Longrightarrow>
   (left # fill_row a bs ups left) ! Suc j =
     min (ups ! Suc j + 1)
       (min ((left # fill_row a bs ups left) ! j + 1) (ups ! j + subst_cost a (bs ! j)))"
proof (induction bs arbitrary: ups left j)
  case Nil
  then show ?case by simp
next
  case (Cons b bs)
  from Cons.prems(2) obtain diag up rest where ups: "ups = diag # up # rest"
    by (cases ups; cases "tl ups") auto
  define v where "v = min (up + 1) (min (left + 1) (diag + subst_cost a b))"
  have f: "fill_row a (b # bs) ups left = v # fill_row a bs (up # rest) v"
    by (simp add: ups v_def Let_def)
  show ?case
  proof (cases j)
    case 0
    then show ?thesis unfolding f by (simp add: ups v_def)
  next
    case (Suc i)
    with Cons.prems ups have "i < length bs" "length (up # rest) = length bs + 1"
      by simp_all
    from Cons.IH [OF this, of v] Suc show ?thesis
      unfolding f by (simp add: ups)
  qed
qed

text \<open>
  The matrix computes the edit distance with unit costs: the distance from or to the
  empty string is the length of the other string, and the distance of two strings that
  end in \<open>a\<close> and \<open>b\<close> is the least of a deletion, an insertion and a substitution
  (free when \<open>a\<close> and \<open>b\<close> are the same letter in either case).
\<close>

lemma levenshteinDistance_recurrence:
  "levenshteinDistance [] t = length t"
  "levenshteinDistance s [] = length s"
  "levenshteinDistance (s @ [a]) (t @ [b]) =
     min (levenshteinDistance s (t @ [b]) + 1)
       (min (levenshteinDistance (s @ [a]) t + 1)
            (levenshteinDistance s t + subst_cost a b))"
proof -
  show "levenshteinDistance [] t = length t"
    by (simp add: levenshteinDistance_def)
  have "foldl (next_row []) [n] s = [n + length s]" for n
    by (induction s arbitrary: n) (simp_all add: next_row_def)
  then show "levenshteinDistance s [] = length s"
    by (simp add: levenshteinDistance_def)
  let ?t = "t @ [b]"
  let ?ups = "lev_row s ?t"
  let ?new = "next_row ?t ?ups a"
  have len: "length ?ups = length ?t + 1" by simp
  have hd: "?new = (hd ?ups + 1) # fill_row a ?t ?ups (hd ?ups + 1)"
    by (simp add: next_row_def Let_def)
  have "levenshteinDistance (s @ [a]) ?t = ?new ! Suc (length t)"
    by (simp add: levenshteinDistance_nth lev_row_snoc)
  also have "\<dots> = min (?ups ! Suc (length t) + 1)
       (min (?new ! length t + 1) (?ups ! length t + subst_cost a (?t ! length t)))"
    unfolding hd using len by (intro fill_row_nth) simp_all
  also have "?ups ! Suc (length t) = levenshteinDistance s ?t"
    using lev_row_nth [of "Suc (length t)" ?t s] by simp
  also have "?ups ! length t = levenshteinDistance s t"
    using lev_row_nth [of "length t" ?t s] by simp
  also have "?new ! length t = levenshteinDistance (s @ [a]) t"
    using lev_row_nth [of "length t" ?t "s @ [a]"] by (simp add: lev_row_snoc)
  finally show "levenshteinDistance (s @ [a]) (t @ [b]) =
     min (levenshteinDistance s (t @ [b]) + 1)
       (min (levenshteinDistance (s @ [a]) t + 1)
            (levenshteinDistance s t + subst_cost a b))"
    by simp
qed

text \<open>
  Claim C2 (as amended). If one of the two strings is empty the score is 0. Otherwise
  both strings are trimmed first, and the score of the trimmed strings follows the
  three rules in their order: equality without regard to case gives 1; one containing
  the other gives \<open>0.8\<close> times the shorter length over the longer; otherwise
  \<open>max 0 (1 - distance / longer length)\<close> with the edit distance of
  \<^verbatim>\<open>levenshteinDistance\<close>, which compares without regard to case.
\<close>

theorem similarity_by_rules:
  "calculateSimilarity (Some a) (Some b) =
     (if a = [] \<or> b = [] then 0 else similarity_rules (trim a) (trim b))"
proof (cases "a = [] \<or> b = []")
  case True
  then show ?thesis by (auto simp: calculateSimilarity_def truthy_str_def)
next
  case False
  let ?s1 = "toLowerCase (trim a)" and ?s2 = "toLowerCase (trim b)"
  have ne: "?s1 \<noteq> ?s2 \<Longrightarrow> max (length (trim a)) (length (trim b)) \<noteq> 0"
    by auto
  have frac: "(if length (trim a) > length (trim b)
               then (of_nat (length (trim b)) :: rat) / of_nat (length (trim a))
               else of_nat (length (trim a)) / of_nat (length (trim b)))
              = of_nat (min (length (trim a)) (length (trim b)))
                / of_nat (max (length (trim a)) (length (trim b)))"
    by (simp add: min_def max_def)
  from False show ?thesis
    using ne frac
    by (simp add: calculateSimilarity_def truthy_str_def similarity_rules_def Let_def
        trim_toLowerCase levenshteinDistance_lower)
qed

theorem similarity_by_rules_witness:
  "calculateSimilarity (Some ''Paracetmol'') (Some ''Paracetamol '') = 10 / 11
   \<and> calculateSimilarity (Some ''Calpol'') (Some ''calpol plus'') = 24 / 55
   \<and> calculateSimilarity (Some ''Calpol'') (Some []) = 0"
proof -
  have "similarity_rules (trim ''Paracetmol'') (trim ''Paracetamol '') = 10 / 11"
    by code_simp
  moreover have "similarity_rules (trim ''Calpol'') (trim ''calpol plus'') = 24 / 55"
    by code_simp
  ultimately show ?thesis
    using similarity_by_rules [of "''Paracetmol''" "''Paracetamol ''"]
      similarity_by_rules [of "''Calpol''" "''calpol plus''"]
      similarity_by_rules [of "''Calpol''" "[]"]
    by simp
qed

text \<open>The claim as worded fails on strings with white space at an end, which the code
  trims before it compares, and on the empty string, which the code scores 0.\<close>

theorem similarity_rules_counterexample:
  "calculateSimilarity (Some '' a'') (Some ''a'') = 1 \<and> similarity_rules '' a'' ''a'' = 2 / 5
   \<and> calculateSimilarity (Some []) (Some []) \<noteq> similarity_rules [] []"
  by code_simp

text \<open>
  Claim C3 (as amended). For every string \<open>s\<close> other than the empty one,
  \<^verbatim>\<open>calculateSimilarity(s, s)\<close> is 1.
\<close>

theorem similarity_reflexive:
  "s \<noteq> [] \<Longrightarrow> calculateSimilarity (Some s) (Some s) = 1"
  by (simp add: calculateSimilarity_def truthy_str_def Let_def)

theorem similarity_reflexive_witness:
  "''Paracetamol'' \<noteq> [] \<and> calculateSimilarity (Some ''Paracetamol'') (Some ''Paracetamol'') = 1"
  using similarity_reflexive [of "''Paracetamol''"] by simp

text \<open>On the empty string the guard at the head of the function answers 0.\<close>

theorem similarity_empty_counterexample:
  "calculateSimilarity (Some []) (Some []) = 0"
  by (simp add: calculateSimilarity_def truthy_str_def)

section \<open>Sorting, the strategies and the arbiter\<close>

lemma set_insert_by [simp]: "set (insert_by lt x ys) = insert x (set ys)"
  by (induction ys) auto

lemma set_sort_by [simp]: "set (sort_by lt xs) = set xs"
  by (induction xs) (simp_all add: sort_by_def)

lemma length_insert_by [simp]: "length (insert_by lt x ys) = Suc (length ys)"
  by (induction ys) auto

lemma length_sort_by [simp]: "length (sort_by lt xs) = length xs"
  by (induction xs) (simp_all add: sort_by_def)

lemma sorted_wrt_insert_by:
  assumes "\<And>a b. lt a b \<Longrightarrow> R a b" and "\<And>a b. \<not> lt a b \<Longrightarrow> R b a"
    and "\<And>a b c. R a b \<Longrightarrow> R b c \<Longrightarrow> R a c"
  shows "sorted_wrt R ys \<Longrightarrow> sorted_wrt R (insert_by lt x ys)"
proof (induction ys)
  case Nil
  then show ?case by simp
next
  case (Cons y ys)
  show ?case
  proof (cases "lt y x")
    case True
    with Cons assms(1) show ?thesis by auto
  next
    case False
    then have "R x y" by (rule assms(2))
    with Cons.prems assms(3) show ?thesis using False by auto
  qed
qed

lemma sorted_wrt_sort_by:
  assumes "\<And>a b. lt a b \<Longrightarrow> R a b" and "\<And>a b. \<not> lt a b \<Longrightarrow> R b a"
    and "\<And>a b c. R a b \<Longrightarrow> R b c \<Longrightarrow> R a c"
  shows "sorted_wrt R (sort_by lt xs)"
proof (induction xs)
  case Nil
  then show ?case by (simp add: sort_by_def)
next
  case (Cons x xs)
  have "sort_by lt (x # xs) = insert_by lt x (sort_by lt xs)"
    by (simp add: sort_by_def)
  with Cons sorted_wrt_insert_by [of lt R, OF assms] show ?case by simp
qed

lemma rank_by_matchScore:
  "sorted_wrt (\<lambda>a b. matchScore a \<ge> matchScore b) (rank_candidates cs)"
  unfolding rank_candidates_def
proof (rule sorted_wrt_sort_by)
  fix a b :: candidate
  show "compare_candidates a b < 0 \<Longrightarrow> matchScore b \<le> matchScore a"
    by (auto simp: compare_candidates_def split: if_splits)
  show "\<not> compare_candidates a b < 0 \<Longrightarrow> matchScore a \<le> matchScore b"
    by (auto simp: compare_candidates_def split: if_splits)
qed auto

lemma rank_candidates_Nil: "rank_candidates cs = [] \<longleftrightarrow> cs = []"
  using length_sort_by [of "\<lambda>a b. compare_candidates a b < 0" cs]
  by (auto simp: rank_candidates_def simp del: length_sort_by)

lemma set_rank_candidates [simp]: "set (rank_candidates cs) = set cs"
  by (simp add: rank_candidates_def)

lemma exact_rows_active:
  "row \<in> set (exact_rows db v) \<Longrightarrow> row \<in> set (med_details db) \<and> active_row row"
  by (auto simp: exact_rows_def dest!: in_set_takeD)

lemma fuzzy_rows_active:
  "p \<in> set (fuzzy_rows db v k) \<Longrightarrow> fst p \<in> set (med_details db) \<and> active_row (fst p)"
  by (auto simp: fuzzy_rows_def dest!: in_set_takeD)

lemma comp_strength_rows_active:
  "p \<in> set (comp_strength_rows db nm st un k) \<Longrightarrow>
   fst p \<in> set (med_details db) \<and> active_row (fst p)"
  by (auto simp: comp_strength_rows_def comp_where_def dest!: in_set_takeD)

lemma comp_rows_active:
  "p \<in> set (comp_rows db nm k) \<Longrightarrow> fst p \<in> set (med_details db) \<and> active_row (fst p)"
  by (auto simp: comp_rows_def comp_where_def dest!: in_set_takeD)

lemma tryExactMatch_Some:
  "fst (tryExactMatch db vs) = Some r \<Longrightarrow>
   success r \<and> confidence r = 1 \<and> matchType r = Some ''exact''
   \<and> (\<exists>row. row \<in> set (med_details db) \<and> active_row row
         \<and> matched r = Some (formatMedicineResult row))"
proof (induction vs)
  case Nil
  then show ?case by simp
next
  case (Cons v vs)
  show ?case
  proof (cases "if query_fails db (ExactQuery v) then [] else exact_rows db v")
    case Nil
    with Cons.IH Cons.prems show ?thesis by (simp add: split_beta)
  next
    case hit: (Cons row rows)
    then have "row \<in> set (exact_rows db v)" by (auto split: if_splits)
    then have "row \<in> set (med_details db) \<and> active_row row" by (rule exact_rows_active)
    moreover from hit Cons.prems
    have "r = \<lparr>success = True, message = None,
                 matched = Some (formatMedicineResult row), confidence = 1,
                 matchType = Some ''exact'', searchTerm = Some v\<rparr>"
      by simp
    ultimately show ?thesis by auto
  qed
qed

lemma tryExactMatch_events:
  "e \<in> set (snd (tryExactMatch db vs)) \<Longrightarrow> \<exists>q. e = Query q"
  by (induction vs) (auto simp: split_beta split: list.splits if_splits)

lemma tryFuzzyLikeSearch_events:
  "e \<in> set (snd (tryFuzzyLikeSearch db vs k)) \<Longrightarrow> \<exists>q. e = Query q"
  by (induction vs) (auto simp: split_beta Let_def)

lemma tryCompositionSearch_events:
  "e \<in> set (snd (tryCompositionSearch db salt k)) \<Longrightarrow> \<exists>q. e = Query q"
  by (auto simp: tryCompositionSearch_def Let_def split: if_splits)

lemma tryFuzzyLikeSearch_active:
  "c \<in> set (fst (tryFuzzyLikeSearch db vs k)) \<Longrightarrow>
   \<exists>row. row \<in> set (med_details db) \<and> active_row row \<and> medicine c = formatMedicineResult row"
proof (induction vs)
  case Nil
  then show ?case by simp
next
  case (Cons v vs)
  from Cons.prems
  consider (here) p where "p \<in> set (fuzzy_rows db v k)" "c = fuzzy_candidate v p"
    | (later) "c \<in> set (fst (tryFuzzyLikeSearch db vs k))"
    by (auto simp: split_beta Let_def split: if_splits)
  then show ?case
  proof cases
    case here
    with fuzzy_rows_active [of p db v k] show ?thesis
      by (auto simp: fuzzy_candidate_def)
  next
    case later
    then show ?thesis by (rule Cons.IH)
  qed
qed

lemma tryCompositionSearch_active:
  "c \<in> set (fst (tryCompositionSearch db salt k)) \<Longrightarrow>
   \<exists>row. row \<in> set (med_details db) \<and> active_row row \<and> medicine c = formatMedicineResult row"
  by (auto simp: tryCompositionSearch_def Let_def composition_candidate_def
      split: if_splits dest: comp_strength_rows_active comp_rows_active)

lemma collect_candidates_active:
  "c \<in> set (fst (collect_candidates db vs salt k)) \<Longrightarrow>
   \<exists>row. row \<in> set (med_details db) \<and> active_row row \<and> medicine c = formatMedicineResult row"
  by (auto simp: collect_candidates_def split_beta Let_def split: if_splits
      dest: tryFuzzyLikeSearch_active tryCompositionSearch_active)

lemma best_match_success:
  "success (best_match cs t) \<Longrightarrow>
   \<exists>w ws. rank_candidates cs = w # ws \<and> t \<le> similarity w
     \<and> best_match cs t =
         \<lparr>success = True, message = None, matched = Some (medicine w),
          confidence = similarity w,
          matchType = Some (if matchScore w = 100 then ''exact-composition'' else ''fuzzy''),
          searchTerm = Some (term_searched w)\<rparr>"
  by (auto simp: best_match_def no_match_def split: list.splits if_splits)

lemma best_match_below:
  "rank_candidates cs = w # ws \<Longrightarrow> similarity w < t \<Longrightarrow> best_match cs t = no_match"
  by (simp add: best_match_def)

lemma best_match_accept:
  "rank_candidates cs = w # ws \<Longrightarrow> t \<le> similarity w \<Longrightarrow>
   best_match cs t =
     \<lparr>success = True, message = None, matched = Some (medicine w),
      confidence = similarity w,
      matchType = Some (if matchScore w = 100 then ''exact-composition'' else ''fuzzy''),
      searchTerm = Some (term_searched w)\<rparr>"
  by (simp add: best_match_def)

text \<open>The three ways a search ends.\<close>

lemma fuzzySearchMedicine_cases:
  "fuzzySearchMedicine db medicineName opts =
     (if invalid_name medicineName then (validation_failure, [])
      else case medicineName of
        JsStr s \<Rightarrow>
          (case exact_hit db s opts of
             Some r \<Rightarrow> (r, Invoke Exact # snd (tryExactMatch db (generateMedicineNameVariations (Some s))))
           | None \<Rightarrow>
               (best_match (fst (collect_candidates db (generateMedicineNameVariations (Some s))
                                   (includeSalt opts) (limit_of opts))) (threshold_of opts),
                (if preferExactMatch opts = Some False then []
                 else Invoke Exact # snd (tryExactMatch db (generateMedicineNameVariations (Some s))))
                @ snd (collect_candidates db (generateMedicineNameVariations (Some s))
                                   (includeSalt opts) (limit_of opts))))
      | _ \<Rightarrow> (validation_failure, []))"
  by (cases medicineName; cases "preferExactMatch opts")
    (auto simp: fuzzySearchMedicine_def Let_def split_beta exact_hit_def limit_of_def
      threshold_of_def fuzzySearchMedicine_invalid invalid_name_def split: option.splits)


section \<open>The acceptance gate\<close>

lemma exact_rows_brand: "row \<in> set (exact_rows db v) \<Longrightarrow> brand_equals row v"
  by (auto simp: exact_rows_def dest!: in_set_takeD)

lemma tryExactMatch_term:
  "fst (tryExactMatch db vs) = Some r \<Longrightarrow>
   \<exists>row v. v \<in> set vs \<and> brand_equals row v
     \<and> matched r = Some (formatMedicineResult row) \<and> searchTerm r = Some v"
proof (induction vs)
  case Nil
  then show ?case by simp
next
  case (Cons v vs)
  show ?case
  proof (cases "if query_fails db (ExactQuery v) then [] else exact_rows db v")
    case Nil
    with Cons.prems have "fst (tryExactMatch db vs) = Some r" by (simp add: split_beta)
    from Cons.IH [OF this] show ?thesis by auto
  next
    case hit: (Cons row rows)
    then have "row \<in> set (exact_rows db v)" by (auto split: if_splits)
    then have "brand_equals row v" by (rule exact_rows_brand)
    moreover from hit Cons.prems
    have "r = \<lparr>success = True, message = None,
                 matched = Some (formatMedicineResult row), confidence = 1,
                 matchType = Some ''exact'', searchTerm = Some v\<rparr>"
      by simp
    ultimately show ?thesis by auto
  qed
qed

lemma exact_similarity:
  assumes "v \<noteq> []" "brand_equals row v"
  shows "calculateSimilarity (Some v) (med_brand_name row) = 1"
proof -
  from assms(2) obtain b where b: "med_brand_name row = Some b"
    and eq: "toLowerCase b = toLowerCase v"
    by (auto simp: brand_equals_def split: option.splits)
  from eq assms(1) have "b \<noteq> []" by (auto simp: toLowerCase_def)
  with assms(1) eq show ?thesis
    by (simp add: b calculateSimilarity_def truthy_str_def Let_def)
qed

lemma variation_length:
  "v \<in> set (generateMedicineNameVariations nm) \<Longrightarrow> 2 \<le> length v"
  by (auto simp: generateMedicineNameVariations_def Let_def split: if_splits)

text \<open>
  Claim C1. The threshold is \<^verbatim>\<open>minSimilarity\<close>, 0.7 when the caller gives none, and
  lies in the range up to 1 that the callers enforce. A success is returned only with a
  confidence of at least the threshold. The result is fixed by the winner: when the
  exact strategy finds a row, the result is that hit, a success of confidence 1 and type
  "exact", and 1 is the similarity of its search term and the brand name of the row;
  otherwise the winner is the first of the ranked candidates, and the result is a
  success with the similarity of the winner as confidence if that similarity is at
  least the threshold, and the failure "no match" (\<open>success = False\<close>,
  \<open>confidence = 0\<close>) if it is below or there is no candidate.
\<close>

theorem acceptance_gate:
  assumes "threshold_of opts \<le> 1"
  shows "(success (fst (fuzzySearchMedicine db medicineName opts))
            \<longrightarrow> threshold_of opts \<le> confidence (fst (fuzzySearchMedicine db medicineName opts)))
   \<and> (\<forall>s h. medicineName = JsStr s \<and> \<not> invalid_name medicineName
          \<and> exact_hit db s opts = Some h
        \<longrightarrow> fst (fuzzySearchMedicine db medicineName opts) = h
            \<and> success h \<and> confidence h = 1 \<and> matchType h = Some ''exact''
            \<and> (\<exists>row v. matched h = Some (formatMedicineResult row) \<and> searchTerm h = Some v
                  \<and> calculateSimilarity (Some v) (med_brand_name row) = 1))
   \<and> (\<forall>s. medicineName = JsStr s \<and> \<not> invalid_name medicineName
          \<and> exact_hit db s opts = None
        \<longrightarrow> fst (fuzzySearchMedicine db medicineName opts) =
              (case ranked_candidates db s opts of
                 [] \<Rightarrow> no_match
               | w # ws \<Rightarrow>
                   if threshold_of opts \<le> similarity w
                   then \<lparr>success = True, message = None, matched = Some (medicine w),
                         confidence = similarity w,
                         matchType = Some (if matchScore w = 100 then ''exact-composition''
                                           else ''fuzzy''),
                         searchTerm = Some (term_searched w)\<rparr>
                   else no_match))
   \<and> (success (fst (fuzzySearchMedicine db medicineName opts))
        \<longrightarrow> (\<exists>s. medicineName = JsStr s \<and> \<not> invalid_name medicineName))
   \<and> \<not> success no_match \<and> confidence no_match = 0
   \<and> (minSimilarity opts = None \<longrightarrow> threshold_of opts = 7 / 10)"
proof -
  let ?R = "fst (fuzzySearchMedicine db medicineName opts)"
  have exact: "?R = h \<and> success h \<and> confidence h = 1 \<and> matchType h = Some ''exact''
            \<and> (\<exists>row v. matched h = Some (formatMedicineResult row) \<and> searchTerm h = Some v
                  \<and> calculateSimilarity (Some v) (med_brand_name row) = 1)"
    if s: "medicineName = JsStr s" and v: "\<not> invalid_name medicineName"
      and h: "exact_hit db s opts = Some h" for s h
  proof -
    from s v h have r: "?R = h" by (simp add: fuzzySearchMedicine_cases)
    from h have t: "fst (tryExactMatch db (generateMedicineNameVariations (Some s))) = Some h"
      by (auto simp: exact_hit_def split: if_splits)
    from tryExactMatch_term [OF t] obtain row v
      where mem: "v \<in> set (generateMedicineNameVariations (Some s))"
        and be: "brand_equals row v"
        and m: "matched h = Some (formatMedicineResult row)" "searchTerm h = Some v"
      by blast
    from variation_length [OF mem] have "v \<noteq> []" by auto
    then have "calculateSimilarity (Some v) (med_brand_name row) = 1"
      using be by (rule exact_similarity)
    with m tryExactMatch_Some [OF t] r show ?thesis by blast
  qed
  have ranked: "?R = (case ranked_candidates db s opts of
                 [] \<Rightarrow> no_match
               | w # ws \<Rightarrow>
                   if threshold_of opts \<le> similarity w
                   then \<lparr>success = True, message = None, matched = Some (medicine w),
                         confidence = similarity w,
                         matchType = Some (if matchScore w = 100 then ''exact-composition''
                                           else ''fuzzy''),
                         searchTerm = Some (term_searched w)\<rparr>
                   else no_match)"
    if "medicineName = JsStr s" "\<not> invalid_name medicineName" "exact_hit db s opts = None"
    for s
    using that
    by (simp add: fuzzySearchMedicine_cases best_match_def ranked_candidates_def)
  have valid: "\<exists>s. medicineName = JsStr s \<and> \<not> invalid_name medicineName" if "success ?R"
  proof -
    from that have "\<not> invalid_name medicineName"
      by (auto simp: fuzzySearchMedicine_invalid validation_failure_def)
    then show ?thesis by (cases medicineName) (auto simp: invalid_name_def)
  qed
  have gate: "threshold_of opts \<le> confidence ?R" if ok: "success ?R"
  proof -
    from valid [OF ok] obtain s where s: "medicineName = JsStr s"
      and v: "\<not> invalid_name medicineName" by blast
    show ?thesis
    proof (cases "exact_hit db s opts")
      case (Some h)
      from exact [OF s v Some] assms show ?thesis by simp
    next
      case None
      from ranked [OF s v None] ok show ?thesis
        by (auto simp: no_match_def split: list.splits if_splits)
    qed
  qed
  have "\<not> success no_match \<and> confidence no_match = 0" by (simp add: no_match_def)
  moreover have "minSimilarity opts = None \<longrightarrow> threshold_of opts = 7 / 10"
    by (simp add: threshold_of_def)
  ultimately show ?thesis using exact ranked valid gate by blast
qed

theorem acceptance_gate_witness:
  "threshold_of default_options \<le> 1
   \<and> threshold_of default_options = 7 / 10
   \<and> success (fst (fuzzySearchMedicine demo_store (JsStr ''Paracetamo'') default_options))
   \<and> confidence (fst (fuzzySearchMedicine demo_store (JsStr ''Paracetamo'') default_options))
       = 8 / 11
   \<and> fst (fuzzySearchMedicine demo_store (JsStr ''Calpo'') default_options) = no_match
   \<and> success (fst (fuzzySearchMedicine demo_store (JsStr ''Paracetamol'') default_options))
   \<and> confidence (fst (fuzzySearchMedicine demo_store (JsStr ''Paracetamol'') default_options))
       = 1"
proof -
  have t: "threshold_of default_options \<le> 1" "minSimilarity default_options = None"
    by code_simp+
  note gate = acceptance_gate [OF t(1), of demo_store _]
  have v: "\<not> invalid_name (JsStr ''Paracetamo'')" "\<not> invalid_name (JsStr ''Calpo'')"
    "\<not> invalid_name (JsStr ''Paracetamol'')"
    by code_simp+
  have e1: "exact_hit demo_store ''Paracetamo'' default_options = None" by code_simp
  have k1: "map similarity (ranked_candidates demo_store ''Paracetamo'' default_options)
              = [8 / 11, 8 / 11]"
    by code_simp
  have e2: "exact_hit demo_store ''Calpo'' default_options = None" by code_simp
  have k2: "map similarity (ranked_candidates demo_store ''Calpo'' default_options)
              = [2 / 3, 2 / 3]"
    by code_simp
  have e3: "exact_hit demo_store ''Paracetamol'' default_options \<noteq> None" by code_simp
  then obtain h where h: "exact_hit demo_store ''Paracetamol'' default_options = Some h"
    by auto
  obtain w1 ws1 where r1: "ranked_candidates demo_store ''Paracetamo'' default_options = w1 # ws1"
    and w1: "similarity w1 = 8 / 11"
    using k1 by (cases "ranked_candidates demo_store ''Paracetamo'' default_options") auto
  obtain w2 ws2 where r2: "ranked_candidates demo_store ''Calpo'' default_options = w2 # ws2"
    and w2: "similarity w2 = 2 / 3"
    using k2 by (cases "ranked_candidates demo_store ''Calpo'' default_options") auto
  have th: "threshold_of default_options = 7 / 10" using gate [of "JsStr ''Calpo''"] t(2) by blast
  have a: "success (fst (fuzzySearchMedicine demo_store (JsStr ''Paracetamo'') default_options))
      \<and> confidence (fst (fuzzySearchMedicine demo_store (JsStr ''Paracetamo'') default_options))
          = 8 / 11"
    using gate [of "JsStr ''Paracetamo''"] v(1) e1 r1 w1 th by simp
  have b: "fst (fuzzySearchMedicine demo_store (JsStr ''Calpo'') default_options) = no_match"
    using gate [of "JsStr ''Calpo''"] v(2) e2 r2 w2 th by simp
  have c: "success (fst (fuzzySearchMedicine demo_store (JsStr ''Paracetamol'') default_options))
      \<and> confidence (fst (fuzzySearchMedicine demo_store (JsStr ''Paracetamol'') default_options))
          = 1"
    using gate [of "JsStr ''Paracetamol''"] v(3) h by simp
  from t(1) th a b c show ?thesis by simp
qed

section \<open>Withdrawn rows\<close>

text \<open>
  Claim C9. Whatever the query: the result of the exact strategy, every candidate of
  the fuzzy strategy, every candidate of the composition strategy and the match of a
  successful search are the formatted form of a row of the table with
  \<open>is_active = 1\<close> and \<open>is_deactivated = 0\<close>. A row with \<open>is_active = 0\<close> or
  \<open>is_deactivated = 1\<close> is therefore never what is returned, also when the query
  equals its brand name.
\<close>

theorem soft_delete_filter:
  "(\<forall>r. fst (tryExactMatch db vs) = Some r \<longrightarrow>
       (\<exists>row \<in> set (med_details db). is_active row = Some 1 \<and> is_deactivated row = Some 0
          \<and> matched r = Some (formatMedicineResult row)))
   \<and> (\<forall>c \<in> set (fst (tryFuzzyLikeSearch db vs k)).
        \<exists>row \<in> set (med_details db). is_active row = Some 1 \<and> is_deactivated row = Some 0
          \<and> medicine c = formatMedicineResult row)
   \<and> (\<forall>c \<in> set (fst (tryCompositionSearch db salt k)).
        \<exists>row \<in> set (med_details db). is_active row = Some 1 \<and> is_deactivated row = Some 0
          \<and> medicine c = formatMedicineResult row)
   \<and> (success (fst (fuzzySearchMedicine db medicineName opts)) \<longrightarrow>
        (\<exists>row \<in> set (med_details db). is_active row = Some 1 \<and> is_deactivated row = Some 0
           \<and> matched (fst (fuzzySearchMedicine db medicineName opts))
               = Some (formatMedicineResult row)))"
proof (intro conjI allI ballI impI)
  fix r assume "fst (tryExactMatch db vs) = Some r"
  from tryExactMatch_Some [OF this]
  show "\<exists>row \<in> set (med_details db). is_active row = Some 1 \<and> is_deactivated row = Some 0
          \<and> matched r = Some (formatMedicineResult row)"
    by (auto simp: active_row_def)
next
  fix c assume "c \<in> set (fst (tryFuzzyLikeSearch db vs k))"
  from tryFuzzyLikeSearch_active [OF this]
  show "\<exists>row \<in> set (med_details db). is_active row = Some 1 \<and> is_deactivated row = Some 0
          \<and> medicine c = formatMedicineResult row"
    by (auto simp: active_row_def)
next
  fix c assume "c \<in> set (fst (tryCompositionSearch db salt k))"
  from tryCompositionSearch_active [OF this]
  show "\<exists>row \<in> set (med_details db). is_active row = Some 1 \<and> is_deactivated row = Some 0
          \<and> medicine c = formatMedicineResult row"
    by (auto simp: active_row_def)
next
  let ?r = "fst (fuzzySearchMedicine db medicineName opts)"
  assume ok: "success ?r"
  then have valid: "\<not> invalid_name medicineName"
    by (auto simp: fuzzySearchMedicine_invalid validation_failure_def)
  then obtain s where s: "medicineName = JsStr s"
    by (cases medicineName) (auto simp: invalid_name_def)
  show "\<exists>row \<in> set (med_details db). is_active row = Some 1 \<and> is_deactivated row = Some 0
          \<and> matched ?r = Some (formatMedicineResult row)"
  proof (cases "exact_hit db s opts")
    case None
    let ?cs = "fst (collect_candidates db (generateMedicineNameVariations (Some s))
                      (includeSalt opts) (limit_of opts))"
    from None valid s have r: "?r = best_match ?cs (threshold_of opts)"
      by (simp add: fuzzySearchMedicine_cases)
    with ok obtain w ws where w: "rank_candidates ?cs = w # ws"
      and m: "matched ?r = Some (medicine w)"
      by (auto dest!: best_match_success)
    from w have "w \<in> set (rank_candidates ?cs)" by simp
    then have "w \<in> set ?cs" by simp
    from collect_candidates_active [OF this] m show ?thesis
      by (auto simp: active_row_def)
  next
    case (Some h)
    with valid s have r: "?r = h" by (simp add: fuzzySearchMedicine_cases)
    from Some have "fst (tryExactMatch db (generateMedicineNameVariations (Some s))) = Some h"
      by (auto simp: exact_hit_def split: if_splits)
    from tryExactMatch_Some [OF this] show ?thesis
      unfolding r by (auto simp: active_row_def)
  qed
qed

theorem soft_delete_filter_witness:
  "fst (fuzzySearchMedicine demo_store (JsStr ''Dolo'') default_options) = no_match
   \<and> map (med_drug_id \<circ> medicine)
        (fst (tryCompositionSearch demo_store (Some ''Paracetamol 500mg'') 5)) = [2]
   \<and> (\<exists>row \<in> set (med_details demo_store).
         is_active row = Some 1 \<and> is_deactivated row = Some 0
         \<and> matched (fst (fuzzySearchMedicine demo_store (JsStr ''Calpol'') default_options))
             = Some (formatMedicineResult row))"
proof -
  have a: "fst (fuzzySearchMedicine demo_store (JsStr ''Dolo'') default_options) = no_match"
    by code_simp
  have b: "map (med_drug_id \<circ> medicine)
        (fst (tryCompositionSearch demo_store (Some ''Paracetamol 500mg'') 5)) = [2]"
    by code_simp
  have c: "success (fst (fuzzySearchMedicine demo_store (JsStr ''Calpol'') default_options))"
    by code_simp
  show ?thesis
    using a b c
      soft_delete_filter [of demo_store "[]" 5 None "JsStr ''Calpol''" default_options]
    by simp
qed

section \<open>The composition fallback\<close>

lemma collect_candidates_events:
  "Invoke Fuzzy \<in> set (snd (collect_candidates db vs salt k))"
  "Invoke Composition \<in> set (snd (collect_candidates db vs salt k)) \<longleftrightarrow>
     truthy_str salt \<and> fst (tryFuzzyLikeSearch db vs k) = []"
  "Invoke Exact \<notin> set (snd (collect_candidates db vs salt k))"
  by (auto simp: collect_candidates_def split_beta Let_def
      dest: tryFuzzyLikeSearch_events tryCompositionSearch_events)

lemma fuzzySearchMedicine_events:
  "Invoke Fuzzy \<in> set (snd (fuzzySearchMedicine db medicineName opts)) \<longleftrightarrow>
     (\<exists>s. medicineName = JsStr s \<and> \<not> invalid_name medicineName \<and> exact_hit db s opts = None)"
  "Invoke Composition \<in> set (snd (fuzzySearchMedicine db medicineName opts)) \<longleftrightarrow>
     (\<exists>s. medicineName = JsStr s \<and> \<not> invalid_name medicineName \<and> exact_hit db s opts = None
        \<and> truthy_str (includeSalt opts) \<and> fuzzy_candidates db s opts = [])"
  by (cases medicineName; cases "invalid_name medicineName";
      auto simp: fuzzySearchMedicine_cases collect_candidates_events fuzzy_candidates_def
      invalid_name_def
      split: option.splits dest: tryExactMatch_events)+

text \<open>
  Claim C4 (as amended). The composition strategy is called exactly when a non-empty
  salt was given and the fuzzy strategy ran and found no candidate. When it was called
  and the first of the ranked candidates has match score 100, the result is a success
  of type "exact-composition" if the similarity of that candidate is at least the
  threshold, and the failure "no match", which has no type, if it is below. The ranked
  candidates are in descending order of match score, so a candidate of score 100 comes
  before every candidate of a lower score; the composition statement gives a row the
  score 100 exactly when one of its slots has a similar name, the strength and the unit.
\<close>

theorem composition_fallback:
  "(Invoke Composition \<in> set (snd (fuzzySearchMedicine db medicineName opts)) \<longleftrightarrow>
      truthy_str (includeSalt opts)
      \<and> Invoke Fuzzy \<in> set (snd (fuzzySearchMedicine db medicineName opts))
      \<and> (\<exists>s. medicineName = JsStr s \<and> fuzzy_candidates db s opts = []))
   \<and> (\<forall>s w ws. medicineName = JsStr s
          \<and> Invoke Composition \<in> set (snd (fuzzySearchMedicine db medicineName opts))
          \<and> ranked_candidates db s opts = w # ws \<and> matchScore w = 100
          \<and> threshold_of opts \<le> similarity w
        \<longrightarrow> success (fst (fuzzySearchMedicine db medicineName opts))
            \<and> matchType (fst (fuzzySearchMedicine db medicineName opts))
                = Some ''exact-composition'')
   \<and> (\<forall>s w ws. medicineName = JsStr s
          \<and> Invoke Composition \<in> set (snd (fuzzySearchMedicine db medicineName opts))
          \<and> ranked_candidates db s opts = w # ws \<and> similarity w < threshold_of opts
        \<longrightarrow> fst (fuzzySearchMedicine db medicineName opts) = no_match
            \<and> matchType no_match = None)
   \<and> sorted_wrt (\<lambda>a b. matchScore a \<ge> matchScore b) (ranked_candidates db s' opts)
   \<and> (comp_match_score db nm st un row = 100 \<longleftrightarrow>
        (\<exists>sl \<in> set (slots row). slot_similar db nm sl \<and> composition_strength sl = Some st
           \<and> (\<exists>u. composition_unit sl = Some u \<and> toLowerCase u = toLowerCase un)))"
proof -
  let ?R = "fuzzySearchMedicine db medicineName opts"
  have score: "comp_match_score db nm st un row = 100 \<longleftrightarrow>
        (\<exists>sl \<in> set (slots row). slot_similar db nm sl \<and> composition_strength sl = Some st
           \<and> (\<exists>u. composition_unit sl = Some u \<and> toLowerCase u = toLowerCase un))"
    by (auto simp: comp_match_score_def list_ex_iff slot_exact_def split: option.splits)
  have called: "Invoke Composition \<in> set (snd ?R) \<longleftrightarrow>
      truthy_str (includeSalt opts) \<and> Invoke Fuzzy \<in> set (snd ?R)
      \<and> (\<exists>s. medicineName = JsStr s \<and> fuzzy_candidates db s opts = [])"
    unfolding fuzzySearchMedicine_events by auto
  have order: "sorted_wrt (\<lambda>a b. matchScore a \<ge> matchScore b) (ranked_candidates db s' opts)"
    by (simp add: ranked_candidates_def rank_by_matchScore)
  have result: "fst ?R = best_match (fst (collect_candidates db
        (generateMedicineNameVariations (Some s)) (includeSalt opts) (limit_of opts)))
        (threshold_of opts)"
    if "medicineName = JsStr s" "Invoke Composition \<in> set (snd ?R)" for s
  proof -
    from that have "\<not> invalid_name medicineName" "exact_hit db s opts = None"
      unfolding fuzzySearchMedicine_events by auto
    with that(1) show ?thesis by (simp add: fuzzySearchMedicine_cases)
  qed
  have accept: "success (fst ?R) \<and> matchType (fst ?R) = Some ''exact-composition''"
    if "medicineName = JsStr s \<and> Invoke Composition \<in> set (snd ?R)
          \<and> ranked_candidates db s opts = w # ws \<and> matchScore w = 100
          \<and> threshold_of opts \<le> similarity w" for s w ws
  proof -
    from that have "rank_candidates (fst (collect_candidates db
        (generateMedicineNameVariations (Some s)) (includeSalt opts) (limit_of opts))) = w # ws"
      by (simp add: ranked_candidates_def)
    from best_match_accept [OF this, of "threshold_of opts"] that result [of s]
    show ?thesis by auto
  qed
  have refuse: "fst ?R = no_match \<and> matchType no_match = None"
    if "medicineName = JsStr s \<and> Invoke Composition \<in> set (snd ?R)
          \<and> ranked_candidates db s opts = w # ws \<and> similarity w < threshold_of opts"
    for s w ws
  proof -
    from that have "rank_candidates (fst (collect_candidates db
        (generateMedicineNameVariations (Some s)) (includeSalt opts) (limit_of opts))) = w # ws"
      by (simp add: ranked_candidates_def)
    from best_match_below [OF this, of "threshold_of opts"] that result [of s]
    show ?thesis by (auto simp: no_match_def)
  qed
  from called accept refuse order score show ?thesis by blast
qed

theorem composition_fallback_witness:
  "Invoke Composition
     \<in> set (snd (fuzzySearchMedicine demo_store (JsStr ''zzzz'')
                   (salt_options ''Paracetamol 500mg'')))
   \<and> matchType (fst (fuzzySearchMedicine demo_store (JsStr ''zzzz'')
                       (salt_options ''Paracetamol 500mg'')))
       = Some ''exact-composition''
   \<and> Invoke Composition
       \<notin> set (snd (fuzzySearchMedicine demo_store (JsStr ''Calpo'')
                     (salt_options ''Paracetamol 500mg'')))"
proof -
  let ?o = "salt_options ''Paracetamol 500mg''"
  have t: "truthy_str (includeSalt ?o)" by code_simp
  have f: "Invoke Fuzzy \<in> set (snd (fuzzySearchMedicine demo_store (JsStr ''zzzz'') ?o))"
    by code_simp
  have z: "fuzzy_candidates demo_store ''zzzz'' ?o = []" by code_simp
  have c: "fuzzy_candidates demo_store ''Calpo'' ?o \<noteq> []" by code_simp
  have k: "map matchScore (ranked_candidates demo_store ''zzzz'' ?o) = [100]"
    "map similarity (ranked_candidates demo_store ''zzzz'' ?o) = [1]"
    by code_simp+
  then obtain w where w: "ranked_candidates demo_store ''zzzz'' ?o = [w]"
    "matchScore w = 100" "similarity w = 1"
    by (cases "ranked_candidates demo_store ''zzzz'' ?o") auto
  have th: "threshold_of ?o = 7 / 10" by code_simp
  show ?thesis
    using composition_fallback [of demo_store "JsStr ''zzzz''" ?o "''zzzz''"]
      composition_fallback [of demo_store "JsStr ''Calpo''" ?o "''Calpo''"]
      t f z c w th
    by auto
qed

text \<open>Without the condition on the threshold the claim fails. The salt names an
  infusion; the only row on sale with this strength and unit has the composition
  "Paracetamol", whose trigram similarity to "Paracetamol Infusion" is \<open>4/7\<close>: the
  composition strategy runs, its only candidate has score 100 and a similarity below
  the default threshold, and the search ends with "no match" and no match type.\<close>

theorem composition_fallback_counterexample:
  "Invoke Composition
     \<in> set (snd (fuzzySearchMedicine demo_store (JsStr ''zzzz'')
                   (salt_options ''Paracetamol Infusion 500mg'')))
   \<and> map matchScore (ranked_candidates demo_store ''zzzz''
                        (salt_options ''Paracetamol Infusion 500mg'')) = [100]
   \<and> map similarity (ranked_candidates demo_store ''zzzz''
                        (salt_options ''Paracetamol Infusion 500mg'')) = [4 / 7]
   \<and> trgm_similarity ''paracetamol'' ''paracetamol'' = 1
   \<and> fst (fuzzySearchMedicine demo_store (JsStr ''zzzz'')
             (salt_options ''Paracetamol Infusion 500mg'')) = no_match
   \<and> matchType no_match = None"
  by code_simp

section \<open>The dose pattern\<close>

text \<open>
  The matcher of the model is compared with the plain description of a dose token:
  where a token stands the matcher succeeds, what it matches is a token, and the scan
  finds the leftmost one.
\<close>

lemma startsWith_iff: "startsWith s p \<longleftrightarrow> (\<exists>r. s = p @ r)"
  by (induction p arbitrary: s) (auto split: list.splits)

lemma toLowerCase_append [simp]: "toLowerCase (a @ b) = toLowerCase a @ toLowerCase b"
  by (simp add: toLowerCase_def)

lemma toLowerCase_Nil [simp]: "toLowerCase [] = []" "toLowerCase s = [] \<longleftrightarrow> s = []"
  by (simp_all add: toLowerCase_def)

lemma digit_facts:
  "is_digit c \<Longrightarrow> \<not> is_space c"
  "is_digit c \<Longrightarrow> toLowerCase_char c = c"
  "is_digit c \<Longrightarrow> c \<noteq> CHR ''.''"
  by (cases c; simp add: is_digit_code is_space_code toLowerCase_char_code; blast)+

lemma dot_facts [simp]:
  "toLowerCase_char CHR ''.'' = CHR ''.''" "\<not> is_space CHR ''.''" "\<not> is_digit CHR ''.''"
  by (simp_all add: is_digit_code is_space_code toLowerCase_char_code)

lemma is_digit_lower: "is_digit (toLowerCase_char c) \<Longrightarrow> is_digit c"
  by (cases c) (simp add: is_digit_code toLowerCase_char_code split: if_splits)

lemma lower_dot: "toLowerCase_char c = CHR ''.'' \<Longrightarrow> c = CHR ''.''"
  by (cases c) (simp add: toLowerCase_char_code split: if_splits)

lemma all_units:
  "list_all (\<lambda>x. x \<noteq> [] \<and> \<not> is_digit (hd x) \<and> \<not> is_space (hd x) \<and> hd x \<noteq> CHR ''.''
                \<and> \<not> is_space (last x) \<and> toLowerCase x = x \<and> match_unit x = Some x)
     DOSE_UNITS"
  by code_simp

lemma unit_facts:
  assumes "x \<in> set DOSE_UNITS"
  shows "x \<noteq> []" "\<not> is_digit (hd x)" "\<not> is_space (hd x)" "hd x \<noteq> CHR ''.''"
    "\<not> is_space (last x)" "toLowerCase x = x" "match_unit x = Some x"
  using assms all_units by (simp_all add: list_all_iff)

lemma hd_toLowerCase: "s \<noteq> [] \<Longrightarrow> hd (toLowerCase s) = toLowerCase_char (hd s)"
  by (cases s) (simp_all add: toLowerCase_def)

lemma last_toLowerCase: "s \<noteq> [] \<Longrightarrow> last (toLowerCase s) = toLowerCase_char (last s)"
  by (simp add: toLowerCase_def last_map)

lemma unit_token_facts:
  assumes "unit_token u"
  shows "u \<noteq> []" "\<not> is_digit (hd u)" "\<not> is_space (hd u)" "hd u \<noteq> CHR ''.''"
    "\<not> is_space (last u)"
proof -
  from assms have x: "toLowerCase u \<in> set DOSE_UNITS" by (simp add: unit_token_def)
  from unit_facts(1) [OF x] show ne: "u \<noteq> []" by simp
  from unit_facts(2) [OF x] ne show "\<not> is_digit (hd u)"
    using digit_facts(2) [of "hd u"] by (auto simp: hd_toLowerCase)
  from unit_facts(3) [OF x] ne show "\<not> is_space (hd u)"
    by (simp add: hd_toLowerCase)
  from unit_facts(4) [OF x] ne show "hd u \<noteq> CHR ''.''"
    by (auto simp: hd_toLowerCase)
  from unit_facts(5) [OF x] ne show "\<not> is_space (last u)"
    by (simp add: last_toLowerCase)
qed

lemma match_unit_Some:
  assumes "match_unit s = Some u"
  shows "\<exists>post. s = u @ post" and "unit_token u"
    and "find (\<lambda>x. startsWith (toLowerCase s) x) DOSE_UNITS = Some (toLowerCase u)"
proof -
  from assms obtain x where f: "find (\<lambda>x. startsWith (toLowerCase s) x) DOSE_UNITS = Some x"
    and u: "u = take (length x) s"
    by (auto simp: match_unit_def)
  from f have x: "x \<in> set DOSE_UNITS" and "startsWith (toLowerCase s) x"
    by (auto simp: find_Some_iff)
  then obtain r where r: "toLowerCase s = x @ r" by (auto simp: startsWith_iff)
  then have "take (length x) (toLowerCase s) = x" by simp
  then have lu: "toLowerCase u = x" by (simp add: u toLowerCase_def take_map)
  show "\<exists>post. s = u @ post" by (metis u append_take_drop_id)
  show "unit_token u" using lu x by (simp add: unit_token_def)
  show "find (\<lambda>x. startsWith (toLowerCase s) x) DOSE_UNITS = Some (toLowerCase u)"
    using f lu by simp
qed

lemma match_unit_complete:
  assumes "unit_token u"
  shows "match_unit (u @ post) \<noteq> None"
proof -
  have "startsWith (toLowerCase (u @ post)) (toLowerCase u)"
    by (simp add: startsWith_iff)
  with assms show ?thesis
    by (auto simp: match_unit_def unit_token_def find_None_iff)
qed

lemma match_unit_hd:
  assumes "match_unit (c # cs) = Some u"
  shows "\<not> is_digit c" "\<not> is_space c" "c \<noteq> CHR ''.''"
proof -
  from match_unit_Some [OF assms] obtain post where s: "c # cs = u @ post" and t: "unit_token u"
    by blast
  from unit_token_facts [OF t] s have "hd u = c" by (cases u) auto
  with unit_token_facts [OF t] show "\<not> is_digit c" "\<not> is_space c" "c \<noteq> CHR ''.''"
    by auto
qed

lemma takeWhile_run:
  "list_all P ds \<Longrightarrow> (r = [] \<or> \<not> P (hd r)) \<Longrightarrow> takeWhile P (ds @ r) = ds"
  by (cases r) (auto simp: list_all_iff takeWhile_append2)

lemma dropWhile_run:
  "list_all P ds \<Longrightarrow> (r = [] \<or> \<not> P (hd r)) \<Longrightarrow> dropWhile P (ds @ r) = r"
  by (cases r) (auto simp: list_all_iff dropWhile_append2)

lemma match_number_greedy:
  assumes "number_token n" and "r = [] \<or> (\<not> is_digit (hd r) \<and> hd r \<noteq> CHR ''.'')"
  shows "match_number (n @ r) = Some n"
proof -
  from assms(1) obtain ds where ds: "ds \<noteq> []" "list_all is_digit ds"
    and n: "n = ds \<or> (\<exists>fs. fs \<noteq> [] \<and> list_all is_digit fs \<and> n = ds @ CHR ''.'' # fs)"
    by (auto simp: number_token_def)
  from n show ?thesis
  proof
    assume n: "n = ds"
    from ds assms(2) have tw: "takeWhile is_digit (ds @ r) = ds"
      and dw: "dropWhile is_digit (ds @ r) = r"
      by (auto intro: takeWhile_run dropWhile_run)
    have "match_number (ds @ r) = Some ds"
      unfolding match_number_def Let_def tw dw
      using ds assms(2) by (cases r) auto
    then show ?thesis by (simp add: n)
  next
    assume "\<exists>fs. fs \<noteq> [] \<and> list_all is_digit fs \<and> n = ds @ CHR ''.'' # fs"
    then obtain fs where fs: "fs \<noteq> []" "list_all is_digit fs" and n: "n = ds @ CHR ''.'' # fs"
      by blast
    from ds have tw: "takeWhile is_digit (ds @ CHR ''.'' # fs @ r) = ds"
      and dw: "dropWhile is_digit (ds @ CHR ''.'' # fs @ r) = CHR ''.'' # fs @ r"
      by (auto intro: takeWhile_run dropWhile_run)
    from fs assms(2) have tf: "takeWhile is_digit (fs @ r) = fs"
      by (auto intro: takeWhile_run)
    have "match_number (ds @ CHR ''.'' # fs @ r) = Some (ds @ CHR ''.'' # fs)"
      unfolding match_number_def Let_def tw dw
      using ds fs tf by simp
    then show ?thesis by (simp add: n)
  qed
qed

lemma match_number_Some:
  assumes "match_number s = Some n"
  shows "number_token n" and "\<exists>r. s = n @ r" and "n \<noteq> []" and "is_digit (hd n)"
proof -
  define ds where "ds = takeWhile is_digit s"
  define r where "r = dropWhile is_digit s"
  have s: "s = ds @ r" by (simp add: ds_def r_def)
  have all: "list_all is_digit ds" by (auto simp: ds_def list_all_iff dest: set_takeWhileD)
  from assms have m: "(if ds = [] then None
         else (case r of [] \<Rightarrow> Some ds
               | c # r' \<Rightarrow> if c = CHR ''.'' \<and> takeWhile is_digit r' \<noteq> []
                           then Some (ds @ c # takeWhile is_digit r') else Some ds)) = Some n"
    unfolding match_number_def Let_def ds_def r_def .
  then have ne: "ds \<noteq> []" by (auto split: if_splits)
  then have hd: "is_digit (hd ds)" using all by (cases ds) (auto simp: list_all_iff)
  from m ne
  consider (int) "n = ds"
    | (frac) r' where "r = CHR ''.'' # r'" "takeWhile is_digit r' \<noteq> []"
        "n = ds @ CHR ''.'' # takeWhile is_digit r'"
    by (cases r) (auto split: if_splits)
  then have "number_token n \<and> (\<exists>q. s = n @ q) \<and> hd n = hd ds \<and> n \<noteq> []"
  proof cases
    case int
    have "number_token ds" unfolding number_token_def using ne all by blast
    with int ne s show ?thesis by blast
  next
    case frac
    define fs where "fs = takeWhile is_digit r'"
    have "list_all is_digit fs"
      by (auto simp: fs_def list_all_iff dest: set_takeWhileD)
    with frac ne all have "number_token n"
      unfolding number_token_def fs_def by blast
    moreover have "r' = fs @ dropWhile is_digit r'" by (simp add: fs_def)
    then have "s = n @ dropWhile is_digit r'"
      using frac s by (simp add: fs_def)
    moreover have "hd n = hd ds" "n \<noteq> []" using frac ne by simp_all
    ultimately show ?thesis by blast
  qed
  with hd show "number_token n" "\<exists>r. s = n @ r" "n \<noteq> []" "is_digit (hd n)"
    by simp_all
qed

lemma dose_at_Some:
  assumes "dose_at s = Some t"
  shows "\<exists>n ws u post. t = n @ ws @ u \<and> s = t @ post \<and> number_token n
           \<and> list_all is_space ws \<and> unit_token u
           \<and> find (\<lambda>x. startsWith (toLowerCase (u @ post)) x) DOSE_UNITS
               = Some (toLowerCase u)"
proof -
  from assms obtain n u where n: "match_number s = Some n"
    and u: "match_unit (dropWhile is_space (drop (length n) s)) = Some u"
    and t: "t = n @ takeWhile is_space (drop (length n) s) @ u"
    by (auto simp: dose_at_def Let_def split: option.splits)
  define r where "r = drop (length n) s"
  define ws where "ws = takeWhile is_space r"
  from match_number_Some [OF n] have nt: "number_token n" and s: "s = n @ r"
    by (auto simp: r_def)
  from match_unit_Some [OF u] obtain post where p: "dropWhile is_space r = u @ post"
    and ut: "unit_token u"
    and f: "find (\<lambda>x. startsWith (toLowerCase (dropWhile is_space r)) x) DOSE_UNITS
              = Some (toLowerCase u)"
    by (auto simp: r_def)
  have "r = ws @ dropWhile is_space r" by (simp add: ws_def)
  with p have r: "r = ws @ u @ post" by simp
  have w: "list_all is_space ws" by (auto simp: ws_def list_all_iff dest: set_takeWhileD)
  have "t = n @ ws @ u" by (simp add: t ws_def r_def)
  moreover have "s = (n @ ws @ u) @ post" using s r by simp
  ultimately show ?thesis using nt w ut f p by auto
qed

lemma dose_at_complete:
  assumes "number_token n" "list_all is_space ws" "unit_token u"
  shows "dose_at (n @ ws @ u @ post) \<noteq> None"
proof -
  let ?r = "ws @ u @ post"
  from unit_token_facts [OF assms(3)] have u: "u \<noteq> []" "\<not> is_digit (hd u)"
    "\<not> is_space (hd u)" "hd u \<noteq> CHR ''.''" by auto
  have hd: "\<not> is_digit (hd ?r) \<and> hd ?r \<noteq> CHR ''.''"
  proof (cases ws)
    case Nil
    with u show ?thesis by simp
  next
    case (Cons w ws')
    with assms(2) have "is_space w" by simp
    with Cons show ?thesis using digit_facts(1) [of w] by auto
  qed
  then have n: "match_number (n @ ?r) = Some n"
    by (intro match_number_greedy assms) simp
  from assms(2) u have tw: "takeWhile is_space ?r = ws" and dw: "dropWhile is_space ?r = u @ post"
    by (auto intro: takeWhile_run dropWhile_run)
  from match_unit_complete [OF assms(3), of post] obtain v where "match_unit (u @ post) = Some v"
    by auto
  then show ?thesis
    by (simp add: dose_at_def n tw dw)
qed

lemma dose_at_Nil [simp]: "dose_at [] = None"
  by (simp add: dose_at_def match_number_def)

lemma dose_matches_skip: "dose_matches k s = dose_matches 0 (drop k s)"
proof (induction s arbitrary: k)
  case Nil
  then show ?case by simp
next
  case (Cons c cs)
  then show ?case by (cases k) simp_all
qed

lemma dose_removed_skip: "dose_removed k s = dose_removed 0 (drop k s)"
proof (induction s arbitrary: k)
  case Nil
  then show ?case by simp
next
  case (Cons c cs)
  then show ?case by (cases k) simp_all
qed

lemma dose_scan_none:
  "dose_matches 0 s = [] \<longleftrightarrow> (\<forall>k. dose_at (drop k s) = None)"
proof (induction s)
  case Nil
  then show ?case by simp
next
  case (Cons c cs)
  show ?case
  proof (cases "dose_at (c # cs)")
    case None
    have "(\<forall>k. dose_at (drop k (c # cs)) = None) \<longleftrightarrow> (\<forall>k. dose_at (drop k cs) = None)"
    proof
      assume a: "\<forall>k. dose_at (drop k (c # cs)) = None"
      show "\<forall>k. dose_at (drop k cs) = None"
      proof
        fix k from a have "dose_at (drop (Suc k) (c # cs)) = None" by (rule spec)
        then show "dose_at (drop k cs) = None" by simp
      qed
    next
      assume a: "\<forall>k. dose_at (drop k cs) = None"
      show "\<forall>k. dose_at (drop k (c # cs)) = None"
      proof
        fix k show "dose_at (drop k (c # cs)) = None"
          using a None by (cases k) simp_all
      qed
    qed
    with None Cons show ?thesis by simp
  next
    case (Some t)
    have "\<not> (\<forall>k. dose_at (drop k (c # cs)) = None)"
    proof
      assume "\<forall>k. dose_at (drop k (c # cs)) = None"
      then have "dose_at (drop 0 (c # cs)) = None" by (rule spec)
      with Some show False by simp
    qed
    with Some show ?thesis by simp
  qed
qed

lemma dose_removed_none:
  "\<forall>k. dose_at (drop k s) = None \<Longrightarrow> dose_removed 0 s = s"
proof (induction s)
  case Nil
  then show ?case by simp
next
  case (Cons c cs)
  from Cons.prems have "dose_at (drop 0 (c # cs)) = None" by (rule spec)
  then have h: "dose_at (c # cs) = None" by simp
  have "\<forall>k. dose_at (drop k cs) = None"
  proof
    fix k from Cons.prems have "dose_at (drop (Suc k) (c # cs)) = None" by (rule spec)
    then show "dose_at (drop k cs) = None" by simp
  qed
  with Cons.IH h show ?case by simp
qed

lemma dose_scan_first:
  "dose_matches 0 s = t # ts \<Longrightarrow>
   \<exists>pre post. s = pre @ t @ post \<and> dose_at (t @ post) = Some t
     \<and> (\<forall>k < length pre. dose_at (drop k s) = None)
     \<and> dose_removed 0 s = pre @ dose_removed 0 post"
proof (induction s)
  case Nil
  then show ?case by simp
next
  case (Cons c cs)
  show ?case
  proof (cases "dose_at (c # cs)")
    case None
    with Cons.prems have "dose_matches 0 cs = t # ts" by simp
    from Cons.IH [OF this] obtain pre post where cs: "cs = pre @ t @ post"
      and at: "dose_at (t @ post) = Some t"
      and left: "\<forall>k < length pre. dose_at (drop k cs) = None"
      and rem: "dose_removed 0 cs = pre @ dose_removed 0 post"
      by blast
    have "\<forall>k < length (c # pre). dose_at (drop k (c # cs)) = None"
    proof (intro allI impI)
      fix k assume "k < length (c # pre)"
      then show "dose_at (drop k (c # cs)) = None"
        using None left by (cases k) simp_all
    qed
    moreover have "c # cs = (c # pre) @ t @ post" using cs by simp
    moreover have "dose_removed 0 (c # cs) = (c # pre) @ dose_removed 0 post"
      using None rem by simp
    ultimately show ?thesis using at by blast
  next
    case (Some tok)
    with Cons.prems have t: "tok = t" by simp
    from dose_at_Some [OF Some] obtain post where s: "c # cs = t @ post" and ne: "t \<noteq> []"
      using t by (auto simp: number_token_def)
    then have "cs = drop 1 (t @ post)" by (metis drop0 drop_Suc_Cons One_nat_def)
    with ne have "drop (length t - 1) cs = post"
      by (cases t) simp_all
    then have "dose_removed 0 (c # cs) = dose_removed 0 post"
      using Some t dose_removed_skip [of "length t - 1" cs] by simp
    moreover have "dose_at (t @ post) = Some t" using Some s t by simp
    ultimately show ?thesis using s
      by (intro exI [of _ "[]"] exI [of _ post]) simp
  qed
qed

lemma trim_id:
  assumes "s \<noteq> []" "\<not> is_space (hd s)" "\<not> is_space (last s)"
  shows "trim s = s"
proof -
  from assms have a: "dropWhile is_space s = s" by (cases s) simp_all
  from assms have "rev s \<noteq> []" "\<not> is_space (hd (rev s))" by (simp_all add: hd_rev)
  then have "dropWhile is_space (rev s) = rev s" by (cases "rev s") simp_all
  with a show ?thesis by (simp add: trim_def trimEnd_def)
qed

lemma number_token_chars:
  assumes "number_token n"
  shows "n \<noteq> []" "is_digit (hd n)" "list_all (\<lambda>c. is_digit c \<or> c = CHR ''.'') n"
    "toLowerCase n = n"
proof -
  from assms obtain ds where ds: "ds \<noteq> []" "list_all is_digit ds"
    and n: "n = ds \<or> (\<exists>fs. fs \<noteq> [] \<and> list_all is_digit fs \<and> n = ds @ CHR ''.'' # fs)"
    by (auto simp: number_token_def)
  from ds n show "n \<noteq> []" by auto
  from ds n show "is_digit (hd n)" by (cases ds) auto
  from ds n show c: "list_all (\<lambda>c. is_digit c \<or> c = CHR ''.'') n"
    by (auto simp: list_all_iff)
  have "map toLowerCase_char n = n"
  proof (rule map_idI)
    fix c assume "c \<in> set n"
    with c have "is_digit c \<or> c = CHR ''.''" by (simp add: list_all_iff)
    then show "toLowerCase_char c = c" using digit_facts(2) [of c] by auto
  qed
  then show "toLowerCase n = n" by (simp add: toLowerCase_def)
qed

lemma first_number_head:
  assumes "number_token n" and "r = [] \<or> (\<not> is_digit (hd r) \<and> hd r \<noteq> CHR ''.'')"
  shows "first_number (n @ r) = Some n"
proof -
  from number_token_chars(1) [OF assms(1)] obtain c cs where "n @ r = c # cs"
    by (cases n) auto
  moreover have "match_number (n @ r) = Some n" using assms by (rule match_number_greedy)
  ultimately show ?thesis by simp
qed

lemma first_unit_skip:
  "list_all (\<lambda>c. is_digit c \<or> is_space c \<or> c = CHR ''.'') p \<Longrightarrow>
   first_unit (p @ r) = first_unit r"
proof (induction p)
  case Nil
  then show ?case by simp
next
  case (Cons c p)
  from Cons.prems have c: "is_digit c \<or> is_space c \<or> c = CHR ''.''" by simp
  have "match_unit (c # p @ r) = None"
  proof (cases "match_unit (c # p @ r)")
    case None
    then show ?thesis .
  next
    case (Some u)
    from match_unit_hd [OF Some] c show ?thesis by blast
  qed
  with Cons show ?case by simp
qed

lemma first_unit_unit:
  assumes "x \<in> set DOSE_UNITS"
  shows "first_unit x = Some x"
proof -
  from unit_facts(1) [OF assms] obtain c cs where "x = c # cs" by (cases x) auto
  with unit_facts(7) [OF assms] show ?thesis by auto
qed

lemma list_all_toLowerCase_space:
  "list_all is_space ws \<Longrightarrow> list_all is_space (toLowerCase ws)"
  by (simp add: toLowerCase_def list_all_iff)

lemma full_dose_parts:
  assumes "number_token n" "list_all is_space ws" "unit_token u"
  shows "trim (toLowerCase (n @ ws @ u)) = toLowerCase (n @ ws @ u)"
    and "first_number (toLowerCase (n @ ws @ u)) = Some n"
    and "first_unit (toLowerCase (n @ ws @ u)) = Some (toLowerCase u)"
proof -
  define lw where "lw = toLowerCase ws"
  define lu where "lu = toLowerCase u"
  from assms(3) have x: "lu \<in> set DOSE_UNITS" by (simp add: unit_token_def lu_def)
  note nf = number_token_chars [OF assms(1)]
  note uf = unit_facts [OF x]
  have t: "toLowerCase (n @ ws @ u) = n @ lw @ lu" by (simp add: nf(4) lw_def lu_def)
  have lws: "list_all is_space lw"
    unfolding lw_def using assms(2) by (rule list_all_toLowerCase_space)
  have "n @ lw @ lu \<noteq> []" using nf(1) by simp
  moreover have "hd (n @ lw @ lu) = hd n" using nf(1) by simp
  then have "\<not> is_space (hd (n @ lw @ lu))" using nf(2) digit_facts(1) [of "hd n"] by simp
  moreover have "last (n @ lw @ lu) = last lu" using uf(1) by simp
  then have "\<not> is_space (last (n @ lw @ lu))" using uf(5) by simp
  ultimately have "trim (n @ lw @ lu) = n @ lw @ lu" by (rule trim_id)
  then show "trim (toLowerCase (n @ ws @ u)) = toLowerCase (n @ ws @ u)" by (simp only: t)
  have hd: "lw @ lu = [] \<or> (\<not> is_digit (hd (lw @ lu)) \<and> hd (lw @ lu) \<noteq> CHR ''.'')"
  proof (cases lw)
    case Nil
    with uf(1,2,4) show ?thesis by simp
  next
    case (Cons w ws')
    with lws have "is_space w" by simp
    with Cons show ?thesis using digit_facts(1) [of w] by auto
  qed
  have "first_number (n @ (lw @ lu)) = Some n"
    using assms(1) hd by (rule first_number_head)
  then show "first_number (toLowerCase (n @ ws @ u)) = Some n" by (simp only: t)
  have "list_all (\<lambda>c. is_digit c \<or> is_space c \<or> c = CHR ''.'') (n @ lw)"
    using nf(3) lws by (auto simp: list_all_iff)
  from first_unit_skip [OF this, of lu]
  have "first_unit (n @ lw @ lu) = Some lu"
    using first_unit_unit [OF x] by simp
  then show "first_unit (toLowerCase (n @ ws @ u)) = Some (toLowerCase u)"
    by (simp only: t lu_def)
qed

lemma no_token_no_match:
  assumes "\<forall>k. dose_at (drop k s) = None"
  shows "\<not> (\<exists>pre t post. s = pre @ t @ post \<and> dose_token t)"
proof
  assume "\<exists>pre t post. s = pre @ t @ post \<and> dose_token t"
  then obtain pre n ws u post where s: "s = pre @ (n @ ws @ u) @ post"
    and t: "number_token n" "list_all is_space ws" "unit_token u"
    by (auto simp: dose_token_def)
  from assms have "dose_at (drop (length pre) s) = None" by (rule spec)
  with s have "dose_at (n @ ws @ u @ post) = None" by simp
  with dose_at_complete [OF t, of post] show False by simp
qed

lemma leftmost_token:
  assumes "\<forall>k < length pre. dose_at (drop k s) = None"
    and "s = pre' @ t' @ post'" and "dose_token t'"
  shows "length pre \<le> length pre'"
proof (rule ccontr)
  assume "\<not> length pre \<le> length pre'"
  with assms(1) have "dose_at (drop (length pre') s) = None" by simp
  moreover from assms(3) obtain n ws u where t: "t' = n @ ws @ u"
    and tok: "number_token n" "list_all is_space ws" "unit_token u"
    by (auto simp: dose_token_def)
  ultimately have "dose_at (n @ ws @ u @ post') = None" using assms(2) by simp
  with dose_at_complete [OF tok, of post'] show False by simp
qed

text \<open>
  Claim C5 (as amended). For a non-empty input: if no number followed, after white
  space or none, by a unit occurs in it, the result is the trimmed input with no
  strength, unit or full dose. If one occurs, the result is taken from the leftmost
  one: the strength is its number, the unit is its unit in lower case (the first
  alternative of the pattern that fits), the full dose is the token in lower case, and
  the name is the input without the token and without any later match, trimmed at both
  ends; white space inside the name stays as it is.
\<close>

theorem dose_extraction:
  assumes "s \<noteq> []"
  shows "(\<not> (\<exists>pre t post. s = pre @ t @ post \<and> dose_token t) \<longrightarrow>
            extractStrengthFromName (Some s)
              = \<lparr>name = trim s, strength = None, unit = None, fullDose = None\<rparr>)
       \<and> ((\<exists>pre t post. s = pre @ t @ post \<and> dose_token t) \<longrightarrow>
            (\<exists>pre n ws u post.
               s = pre @ n @ ws @ u @ post \<and> number_token n \<and> list_all is_space ws
               \<and> unit_token u
               \<and> (\<forall>pre' t' post'. s = pre' @ t' @ post' \<and> dose_token t'
                     \<longrightarrow> length pre \<le> length pre')
               \<and> find (\<lambda>x. startsWith (toLowerCase (u @ post)) x) DOSE_UNITS
                   = Some (toLowerCase u)
               \<and> extractStrengthFromName (Some s)
                   = \<lparr>name = trim (pre @ dose_removed 0 post), strength = Some n,
                      unit = Some (toLowerCase u),
                      fullDose = Some (toLowerCase (n @ ws @ u))\<rparr>
               \<and> (\<not> (\<exists>p t' q. post = p @ t' @ q \<and> dose_token t')
                     \<longrightarrow> dose_removed 0 post = post)))"
proof (cases "dose_matches 0 s")
  case Nil
  then have none: "\<forall>k. dose_at (drop k s) = None" by (simp add: dose_scan_none)
  have ex: "extractStrengthFromName (Some s)
              = \<lparr>name = trim s, strength = None, unit = None, fullDose = None\<rparr>"
    using Nil assms by (simp add: extractStrengthFromName_def truthy_str_def)
  from no_token_no_match [OF none] ex show ?thesis by simp
next
  case (Cons t ts)
  from dose_scan_first [OF Cons] obtain pre post where s: "s = pre @ t @ post"
    and at: "dose_at (t @ post) = Some t"
    and left: "\<forall>k < length pre. dose_at (drop k s) = None"
    and rem: "dose_removed 0 s = pre @ dose_removed 0 post"
    by blast
  from dose_at_Some [OF at] obtain n ws u where t: "t = n @ ws @ u"
    and tok: "number_token n" "list_all is_space ws" "unit_token u"
    and f: "find (\<lambda>x. startsWith (toLowerCase (u @ post)) x) DOSE_UNITS
              = Some (toLowerCase u)"
    by auto
  have tt: "dose_token t" unfolding dose_token_def using t tok by blast
  have left': "\<forall>pre' t' post'. s = pre' @ t' @ post' \<and> dose_token t'
                 \<longrightarrow> length pre \<le> length pre'"
  proof (intro allI impI)
    fix pre' t' post' assume "s = pre' @ t' @ post' \<and> dose_token t'"
    then show "length pre \<le> length pre'" using leftmost_token [OF left] by simp
  qed
  note parts = full_dose_parts [OF tok]
  have "extractStrengthFromName (Some s)
          = \<lparr>name = trim (dose_removed 0 s),
             strength = first_number (trim (toLowerCase t)),
             unit = map_option toLowerCase (first_unit (trim (toLowerCase t))),
             fullDose = Some (trim (toLowerCase t))\<rparr>"
    using assms Cons by (simp add: extractStrengthFromName_def truthy_str_def Let_def)
  then have ex: "extractStrengthFromName (Some s)
              = \<lparr>name = trim (pre @ dose_removed 0 post), strength = Some n,
                 unit = Some (toLowerCase u),
                 fullDose = Some (toLowerCase (n @ ws @ u))\<rparr>"
    unfolding t parts rem by simp
  have tail: "\<not> (\<exists>p t' q. post = p @ t' @ q \<and> dose_token t') \<longrightarrow> dose_removed 0 post = post"
  proof
    assume no: "\<not> (\<exists>p t' q. post = p @ t' @ q \<and> dose_token t')"
    have "\<forall>k. dose_at (drop k post) = None"
    proof (intro allI, rule ccontr)
      fix k assume "dose_at (drop k post) \<noteq> None"
      then obtain t' where t': "dose_at (drop k post) = Some t'" by auto
      from dose_at_Some [OF this] obtain n' ws' u' q where q: "drop k post = t' @ q"
        and "t' = n' @ ws' @ u'" "number_token n'" "list_all is_space ws'" "unit_token u'"
        by blast
      then have d: "dose_token t'" unfolding dose_token_def by blast
      have "post = take k post @ t' @ q" using q by (metis append_take_drop_id)
      with no d show False by blast
    qed
    then show "dose_removed 0 post = post" by (rule dose_removed_none)
  qed
  have dec: "s = pre @ n @ ws @ u @ post" using s t by simp
  have second: "\<exists>pre n ws u post.
               s = pre @ n @ ws @ u @ post \<and> number_token n \<and> list_all is_space ws
               \<and> unit_token u
               \<and> (\<forall>pre' t' post'. s = pre' @ t' @ post' \<and> dose_token t'
                     \<longrightarrow> length pre \<le> length pre')
               \<and> find (\<lambda>x. startsWith (toLowerCase (u @ post)) x) DOSE_UNITS
                   = Some (toLowerCase u)
               \<and> extractStrengthFromName (Some s)
                   = \<lparr>name = trim (pre @ dose_removed 0 post), strength = Some n,
                      unit = Some (toLowerCase u),
                      fullDose = Some (toLowerCase (n @ ws @ u))\<rparr>
               \<and> (\<not> (\<exists>p t' q. post = p @ t' @ q \<and> dose_token t')
                     \<longrightarrow> dose_removed 0 post = post)"
    apply (rule exI [of _ pre], rule exI [of _ n], rule exI [of _ ws], rule exI [of _ u],
        rule exI [of _ post])
    using dec tok left' f ex tail apply (intro conjI)
           apply assumption+
    done
  have first: "\<exists>pre t post. s = pre @ t @ post \<and> dose_token t"
    using s tt by blast
  from first second show ?thesis by simp
qed

theorem dose_extraction_witness:
  "extractStrengthFromName (Some ''Paracetamol 500mg'')
     = \<lparr>name = ''Paracetamol'', strength = Some ''500'', unit = Some ''mg'',
        fullDose = Some ''500mg''\<rparr>
   \<and> strength (extractStrengthFromName (Some ''Paracetamol 500mg'')) \<noteq> None
   \<and> extractStrengthFromName (Some '' Crocin '')
       = \<lparr>name = ''Crocin'', strength = None, unit = None, fullDose = None\<rparr>"
proof -
  have n: "number_token ''500''"
    unfolding number_token_def by (rule exI [of _ "''500''"]) (simp add: is_digit_code)
  have u: "unit_token ''mg''" by code_simp
  have d: "dose_token ''500mg''"
    unfolding dose_token_def using n u
    by (intro exI [of _ "''500''"] exI [of _ "[]"] exI [of _ "''mg''"]) simp
  have "''Paracetamol 500mg'' = ''Paracetamol '' @ ''500mg'' @ []" by simp
  with d have occurs: "\<exists>pre t post. ''Paracetamol 500mg'' = pre @ t @ post \<and> dose_token t"
    by blast
  have a: "strength (extractStrengthFromName (Some ''Paracetamol 500mg'')) \<noteq> None"
    using dose_extraction [of "''Paracetamol 500mg''"] occurs by auto
  have b: "extractStrengthFromName (Some ''Paracetamol 500mg'')
     = \<lparr>name = ''Paracetamol'', strength = Some ''500'', unit = Some ''mg'',
        fullDose = Some ''500mg''\<rparr>"
    by code_simp
  have "dose_matches 0 '' Crocin '' = []" by code_simp
  then have "\<forall>k. dose_at (drop k '' Crocin '') = None"
    by (rule dose_scan_none [THEN iffD1])
  then have "\<not> (\<exists>pre t post. '' Crocin '' = pre @ t @ post \<and> dose_token t)"
    by (rule no_token_no_match)
  moreover have "trim '' Crocin '' = ''Crocin''" by code_simp
  ultimately have c: "extractStrengthFromName (Some '' Crocin '')
       = \<lparr>name = ''Crocin'', strength = None, unit = None, fullDose = None\<rparr>"
    using dose_extraction [of "'' Crocin ''"] by simp
  from a b c show ?thesis by simp
qed

text \<open>The claim as worded fails where a second dose follows, which is removed too,
  where the removal leaves two spaces, which are not collapsed, and where white space
  separates the number from the unit, which the pattern allows.\<close>

theorem dose_extraction_counterexample:
  "name (extractStrengthFromName (Some ''A 5mg B 10mg'')) = ''A  B''
   \<and> ''A  B'' \<noteq> ''A B 10mg''
   \<and> extractStrengthFromName (Some ''A 5 mg'')
       = \<lparr>name = ''A'', strength = Some ''5'', unit = Some ''mg'', fullDose = Some ''5 mg''\<rparr>"
  by code_simp

section \<open>Name variations\<close>

lemma set_set_add [simp]: "set (set_add vs v) = insert v (set vs)"
  by (auto simp: set_add_def)

lemma ocr_variations_mono: "set vs \<subseteq> set (ocr_variations vs base)"
  by (auto simp: ocr_variations_def Let_def)

lemma foldl_ocr_variations_mono: "set vs \<subseteq> set (foldl ocr_variations vs bases)"
proof (induction bases arbitrary: vs)
  case Nil
  then show ?case by simp
next
  case (Cons b bases)
  from ocr_variations_mono [of vs b] Cons [of "ocr_variations vs b"] show ?case by auto
qed

text \<open>Stripping makes a name shorter whenever its last word is a known suffix.\<close>

lemma length_trimEnd: "length (trimEnd s) \<le> length s"
  using length_dropWhile_le [of is_space "rev s"] by (simp add: trimEnd_def)

lemma length_trim: "length (trim s) \<le> length s"
proof -
  have "length (trim s) \<le> length (dropWhile is_space s)"
    unfolding trim_def by (rule length_trimEnd)
  also have "\<dots> \<le> length s" by (rule length_dropWhile_le)
  finally show ?thesis .
qed

lemma trimEnd_id: "s = [] \<or> \<not> is_space (last s) \<Longrightarrow> trimEnd s = s"
proof (cases s rule: rev_cases)
  case Nil
  then show ?thesis by (simp add: trimEnd_def)
next
  case (snoc xs x)
  assume "s = [] \<or> \<not> is_space (last s)"
  with snoc show ?thesis by (simp add: trimEnd_def)
qed

lemma trimEnd_last: "trimEnd s \<noteq> [] \<Longrightarrow> \<not> is_space (last (trimEnd s))"
proof -
  assume ne: "trimEnd s \<noteq> []"
  then have d: "dropWhile is_space (rev s) \<noteq> []" by (simp add: trimEnd_def)
  then have "\<not> is_space (hd (dropWhile is_space (rev s)))" by (rule hd_dropWhile)
  with d show ?thesis by (simp add: trimEnd_def last_rev)
qed

lemma trimEnd_hd: "trimEnd s \<noteq> [] \<Longrightarrow> hd (trimEnd s) = hd s"
proof (induction s rule: rev_induct)
  case Nil
  then show ?case by (simp add: trimEnd_def)
next
  case (snoc x xs)
  show ?case
  proof (cases "is_space x")
    case True
    then have e: "trimEnd (xs @ [x]) = trimEnd xs" by (simp add: trimEnd_def)
    with snoc have "hd (trimEnd xs) = hd xs" "xs \<noteq> []"
      by (auto simp: trimEnd_def)
    with e show ?thesis by simp
  next
    case False
    then show ?thesis by (simp add: trimEnd_def)
  qed
qed

lemma trim_idem: "trim (trim s) = trim s"
proof (cases "trim s = []")
  case True
  have "trim [] = []" by (simp add: trim_def trimEnd_def)
  then show ?thesis unfolding True .
next
  case False
  let ?d = "dropWhile is_space s"
  from False have ne: "trimEnd ?d \<noteq> []" by (simp add: trim_def)
  have "?d \<noteq> []"
  proof
    assume "?d = []"
    with ne show False by (simp add: trimEnd_def)
  qed
  then have "\<not> is_space (hd ?d)" by (rule hd_dropWhile)
  with trimEnd_hd [OF ne] have "\<not> is_space (hd (trim s))" by (simp add: trim_def)
  moreover from trimEnd_last [OF ne] have "\<not> is_space (last (trim s))" by (simp add: trim_def)
  ultimately show ?thesis using False by (intro trim_id)
qed

lemma length_replace_suffix: "length (replace_suffix s x) \<le> length s"
proof -
  have "length (trimEnd (take (length (trimEnd s) - length x) (trimEnd s))) \<le> length s"
    using length_trimEnd [of "take (length (trimEnd s) - length x) (trimEnd s)"]
      length_trimEnd [of s] by simp
  then show ?thesis by (simp add: replace_suffix_def Let_def)
qed

lemma replace_suffix_shorter:
  "x \<noteq> [] \<Longrightarrow> replace_suffix s x = s \<or> length (replace_suffix s x) < length s"
proof -
  assume x: "x \<noteq> []"
  let ?body = "trimEnd s"
  let ?n = "length ?body - length x"
  have "length (trimEnd (take ?n ?body)) \<le> ?n"
    using length_trimEnd [of "take ?n ?body"] by simp
  moreover have "length x \<le> length ?body \<Longrightarrow> ?n < length s"
    using x length_trimEnd [of s] by (cases x) auto
  ultimately show ?thesis by (auto simp: replace_suffix_def Let_def)
qed

lemma length_foldl_replace_suffix: "length (foldl replace_suffix s xs) \<le> length s"
proof (induction xs arbitrary: s)
  case Nil
  then show ?case by simp
next
  case (Cons x xs)
  from Cons [of "replace_suffix s x"] length_replace_suffix [of s x] show ?case by simp
qed

lemma replace_suffix_applies:
  assumes "front \<noteq> []" "is_space (last front)" "x \<noteq> []" "\<not> is_space (last x)"
    "toLowerCase x = x"
  shows "length (replace_suffix (front @ x) x) < length (front @ x)"
proof -
  have body: "trimEnd (front @ x) = front @ x" using assms(3,4) by (intro trimEnd_id) simp
  have "replace_suffix (front @ x) x = trimEnd front"
    using assms by (simp add: replace_suffix_def body Let_def)
  with length_trimEnd [of front] assms(3) show ?thesis by (cases x) auto
qed

lemma foldl_replace_suffix_shorter:
  assumes "x \<in> set xs" "\<forall>y \<in> set xs. y \<noteq> []"
    and "length (replace_suffix s x) < length s"
  shows "length (foldl replace_suffix s xs) < length s"
  using assms
proof (induction xs)
  case Nil
  then show ?case by simp
next
  case (Cons y ys)
  from Cons.prems(2) have y: "y \<noteq> []" by simp
  show ?case
  proof (cases "replace_suffix s y = s")
    case True
    with Cons.prems(3) have "y \<noteq> x" by auto
    with Cons.prems have "x \<in> set ys" "\<forall>y \<in> set ys. y \<noteq> []" by simp_all
    from Cons.IH [OF this Cons.prems(3)] True show ?thesis by simp
  next
    case False
    with replace_suffix_shorter [OF y, of s] have "length (replace_suffix s y) < length s"
      by simp
    with length_foldl_replace_suffix [of "replace_suffix s y" ys] show ?thesis by simp
  qed
qed

lemma all_suffixes:
  "list_all (\<lambda>x. x \<noteq> [] \<and> \<not> is_space (last x) \<and> toLowerCase x = x) MEDICINE_SUFFIXES"
  by code_simp

lemma removeSuffixes_strips:
  assumes "trim nm = base @ ws @ suf" "ws \<noteq> []" "list_all is_space ws"
    and "toLowerCase suf \<in> set MEDICINE_SUFFIXES"
  shows "removeSuffixes (Some (trim nm)) \<noteq> toLowerCase (trim nm)"
proof -
  define x where "x = toLowerCase suf"
  define front where "front = toLowerCase base @ toLowerCase ws"
  define s where "s = toLowerCase (trim nm)"
  from assms(4) all_suffixes have x: "x \<noteq> []" "\<not> is_space (last x)" "toLowerCase x = x"
    and all: "\<forall>y \<in> set MEDICINE_SUFFIXES. y \<noteq> []"
    by (auto simp: list_all_iff x_def)
  have s: "s = front @ x" by (simp add: s_def assms(1) front_def x_def)
  have "toLowerCase ws \<noteq> []" using assms(2) by simp
  moreover have "is_space (last (toLowerCase ws))"
    using assms(2,3) by (simp add: last_toLowerCase list_all_iff)
  ultimately have f: "front \<noteq> []" "is_space (last front)" by (simp_all add: front_def)
  from replace_suffix_applies [OF f x] have "length (replace_suffix s x) < length s"
    by (simp add: s)
  with assms(4) all have "length (foldl replace_suffix s MEDICINE_SUFFIXES) < length s"
    by (intro foldl_replace_suffix_shorter) (simp_all add: x_def)
  with length_trim [of "foldl replace_suffix s MEDICINE_SUFFIXES"]
  have "length (trim (foldl replace_suffix s MEDICINE_SUFFIXES)) < length s" by simp
  moreover have "trim nm \<noteq> []" using assms(1,2) by simp
  moreover have "trim (toLowerCase (trim nm)) = s"
    by (simp add: trim_toLowerCase trim_idem s_def)
  ultimately show ?thesis
    by (auto simp: removeSuffixes_def truthy_str_def s_def)
qed

text \<open>
  Claim C6 (as amended). For a name whose stripped form, the result of
  \<^verbatim>\<open>removeSuffixes\<close> on the trimmed name, has at least two characters: the stripped
  form is one of the variations whenever it differs from the lower-case trimmed name,
  and so it is whenever the trimmed name ends in white space and a known suffix in
  either case. The variations of "Paracetamol Tablet" include "paracetamol".
\<close>

theorem suffix_stripped_variation:
  assumes "medicineName \<noteq> []"
    and "length (removeSuffixes (Some (trim medicineName))) \<ge> 2"
  shows "(removeSuffixes (Some (trim medicineName)) \<noteq> toLowerCase (trim medicineName)
            \<longrightarrow> removeSuffixes (Some (trim medicineName))
                  \<in> set (generateMedicineNameVariations (Some medicineName)))
       \<and> ((\<exists>base ws suf. trim medicineName = base @ ws @ suf \<and> ws \<noteq> []
               \<and> list_all is_space ws \<and> toLowerCase suf \<in> set MEDICINE_SUFFIXES)
            \<longrightarrow> removeSuffixes (Some (trim medicineName))
                  \<in> set (generateMedicineNameVariations (Some medicineName)))"
proof -
  let ?w = "removeSuffixes (Some (trim medicineName))"
  have member: "?w \<in> set (generateMedicineNameVariations (Some medicineName))"
    if differs: "?w \<noteq> toLowerCase (trim medicineName)"
  proof -
    from assms(2) have "?w \<noteq> []" by auto
    with differs have "?w \<in> set (base_variations (trim medicineName))"
      by (simp add: base_variations_def Let_def)
    with foldl_ocr_variations_mono
    have "?w \<in> set (foldl ocr_variations (base_variations (trim medicineName))
                       (take 3 (base_variations (trim medicineName))))"
      by blast
    with assms show ?thesis
      by (simp add: generateMedicineNameVariations_def truthy_str_def Let_def)
  qed
  have "?w \<noteq> toLowerCase (trim medicineName)"
    if "\<exists>base ws suf. trim medicineName = base @ ws @ suf \<and> ws \<noteq> []
          \<and> list_all is_space ws \<and> toLowerCase suf \<in> set MEDICINE_SUFFIXES"
    using that removeSuffixes_strips by blast
  with member show ?thesis by blast
qed

theorem suffix_stripped_variation_witness:
  "removeSuffixes (Some (trim ''Paracetamol Tablet'')) = ''paracetamol''
   \<and> ''paracetamol'' \<in> set (generateMedicineNameVariations (Some ''Paracetamol Tablet''))"
proof -
  have a: "removeSuffixes (Some (trim ''Paracetamol Tablet'')) = ''paracetamol''"
    by code_simp
  have t: "trim ''Paracetamol Tablet'' = ''Paracetamol'' @ '' '' @ ''Tablet''"
    by code_simp
  have s: "toLowerCase ''Tablet'' \<in> set MEDICINE_SUFFIXES" by code_simp
  have w: "list_all is_space '' ''" by code_simp
  from t s w
  have "\<exists>base ws suf. trim ''Paracetamol Tablet'' = base @ ws @ suf \<and> ws \<noteq> []
          \<and> list_all is_space ws \<and> toLowerCase suf \<in> set MEDICINE_SUFFIXES"
    by (intro exI [of _ "''Paracetamol''"] exI [of _ "'' ''"] exI [of _ "''Tablet''"]) simp
  with suffix_stripped_variation [of "''Paracetamol Tablet''"] a show ?thesis
    by simp
qed

text \<open>A stripped form of one character is dropped by the final filter on the length:
  "A Tablet" is stripped to "a", which is not among the variations.\<close>

theorem suffix_stripped_variation_counterexample:
  "removeSuffixes (Some (trim ''A Tablet'')) = ''a''
   \<and> ''a'' \<noteq> toLowerCase (trim ''A Tablet'')
   \<and> ''a'' \<notin> set (generateMedicineNameVariations (Some ''A Tablet''))"
  by code_simp

end
